theory Spec2Isabelle
  imports Complex_Main "HOL-Library.Log_Nat" "HOL-Library.Sublist"
begin

section \<open>JavaScript values used by the upload handler\<close>

text \<open>
  The service is one Express route, \<^verbatim>\<open>POST /upload\<close> in \<^verbatim>\<open>src/index.js\<close>, behind a
  multer upload middleware and followed by an error-handling middleware. The embedding
  follows that file top to bottom.

  A JavaScript string is a sequence of UTF-16 code units; \<open>str\<close> embeds an ASCII literal.
\<close>

type_synonym jsstring = "nat list"

definition str :: "string \<Rightarrow> jsstring" where
  "str s = map of_char s"

subsection \<open>Numbers\<close>

text \<open>
  A JavaScript number is an IEEE 754 binary64 value. \<open>Finite x\<close> carries the rational
  value of a finite double. Two idealisations, both outside the reach of this program's
  operands: \<open>+0\<close> and \<open>-0\<close> are one value (they differ only as divisors, and every
  divisor here is non-negative), and the exponent range is unbounded (no overflow to
  infinity and no subnormal numbers; the 53-bit significand is modelled exactly). Image
  sizes and the requested sizes that pass validation are far inside the range of
  doubles, and so are their products and quotients.
\<close>

datatype jsnum = NaN | Finite rat | PosInfinity | NegInfinity

text \<open>\<open>pow2 e\<close> is \<open>2\<close> to the power \<open>e\<close>; \<open>expo x\<close>, for positive \<open>x\<close>, is the binary
  exponent of \<open>x\<close>: the integer \<open>e\<close> with \<open>2^e \<le> x < 2^(e+1)\<close>.\<close>

definition pow2 :: "int \<Rightarrow> rat" where
  "pow2 e = (if 0 \<le> e then 2 ^ nat e else 1 / 2 ^ nat (- e))"

definition expo :: "rat \<Rightarrow> int" where
  "expo x = (case quotient_of x of (p, q) \<Rightarrow>
     (let e0 = bitlen p - bitlen q in if pow2 e0 \<le> x then e0 else e0 - 1))"

text \<open>Round to the nearest integer, ties to the even one: the rounding of the
  significand in the default IEEE rounding mode.\<close>

definition round_even :: "rat \<Rightarrow> int" where
  "round_even y = (let f = \<lfloor>y\<rfloor>; d = y - of_int f in
      if d < 1 / 2 then f else if 1 / 2 < d then f + 1 else if even f then f else f + 1)"

text \<open>\<open>fl x\<close> is the double nearest to the exact result \<open>x\<close>: every arithmetic operation
  of JavaScript returns the exact result rounded this way.\<close>

definition fl :: "rat \<Rightarrow> rat" where
  "fl x = (if x = 0 then 0 else
     (let s = pow2 (expo \<bar>x\<bar> - 52) in sgn x * of_int (round_even (\<bar>x\<bar> / s)) * s))"

text \<open>The operators \<^verbatim>\<open>/\<close>, \<^verbatim>\<open>*\<close>, \<^verbatim>\<open><\<close> and \<^verbatim>\<open>>\<close> on numbers.\<close>

fun js_div :: "jsnum \<Rightarrow> jsnum \<Rightarrow> jsnum" where
  "js_div NaN _ = NaN"
| "js_div _ NaN = NaN"
| "js_div (Finite a) (Finite b) =
     (if b = 0 then (if a = 0 then NaN else if 0 < a then PosInfinity else NegInfinity)
      else Finite (fl (a / b)))"
| "js_div (Finite a) PosInfinity = Finite 0"
| "js_div (Finite a) NegInfinity = Finite 0"
| "js_div PosInfinity (Finite b) = (if 0 \<le> b then PosInfinity else NegInfinity)"
| "js_div NegInfinity (Finite b) = (if 0 \<le> b then NegInfinity else PosInfinity)"
| "js_div PosInfinity PosInfinity = NaN"
| "js_div PosInfinity NegInfinity = NaN"
| "js_div NegInfinity PosInfinity = NaN"
| "js_div NegInfinity NegInfinity = NaN"

fun js_mul :: "jsnum \<Rightarrow> jsnum \<Rightarrow> jsnum" where
  "js_mul NaN _ = NaN"
| "js_mul _ NaN = NaN"
| "js_mul (Finite a) (Finite b) = Finite (fl (a * b))"
| "js_mul (Finite a) PosInfinity =
     (if a = 0 then NaN else if 0 < a then PosInfinity else NegInfinity)"
| "js_mul (Finite a) NegInfinity =
     (if a = 0 then NaN else if 0 < a then NegInfinity else PosInfinity)"
| "js_mul PosInfinity (Finite b) =
     (if b = 0 then NaN else if 0 < b then PosInfinity else NegInfinity)"
| "js_mul NegInfinity (Finite b) =
     (if b = 0 then NaN else if 0 < b then NegInfinity else PosInfinity)"
| "js_mul PosInfinity PosInfinity = PosInfinity"
| "js_mul PosInfinity NegInfinity = NegInfinity"
| "js_mul NegInfinity PosInfinity = NegInfinity"
| "js_mul NegInfinity NegInfinity = PosInfinity"

fun js_lt :: "jsnum \<Rightarrow> jsnum \<Rightarrow> bool" where
  "js_lt NaN _ = False"
| "js_lt _ NaN = False"
| "js_lt (Finite a) (Finite b) = (a < b)"
| "js_lt (Finite a) PosInfinity = True"
| "js_lt (Finite a) NegInfinity = False"
| "js_lt PosInfinity _ = False"
| "js_lt NegInfinity NegInfinity = False"
| "js_lt NegInfinity _ = True"

definition js_gt :: "jsnum \<Rightarrow> jsnum \<Rightarrow> bool" where
  "js_gt a b = js_lt b a"

definition isNaN :: "jsnum \<Rightarrow> bool" where
  "isNaN n = (n = NaN)"

text \<open>\<^verbatim>\<open>Math.round\<close>: the nearest integer, a tie going up.\<close>

fun Math_round :: "jsnum \<Rightarrow> jsnum" where
  "Math_round (Finite x) = Finite (of_int \<lfloor>x + 1 / 2\<rfloor>)"
| "Math_round n = n"

subsection \<open>\<^verbatim>\<open>null\<close> or a number\<close>

text \<open>The variables \<^verbatim>\<open>width\<close>, \<^verbatim>\<open>height\<close>, \<^verbatim>\<open>targetWidth\<close> and \<^verbatim>\<open>targetHeight\<close> hold
  \<^verbatim>\<open>null\<close> or a number. \<open>truthy\<close> is the test that \<^verbatim>\<open>if\<close>, \<^verbatim>\<open>&&\<close>, \<^verbatim>\<open>||\<close> and \<^verbatim>\<open>?:\<close> apply;
  \<open>ToNumber\<close> is the coercion of an arithmetic operand.\<close>

datatype jsval = Null | Number jsnum

fun truthy :: "jsval \<Rightarrow> bool" where
  "truthy Null = False"
| "truthy (Number NaN) = False"
| "truthy (Number (Finite x)) = (x \<noteq> 0)"
| "truthy (Number PosInfinity) = True"
| "truthy (Number NegInfinity) = True"

fun ToNumber :: "jsval \<Rightarrow> jsnum" where
  "ToNumber Null = Finite 0"
| "ToNumber (Number n) = n"

definition or_null :: "jsval \<Rightarrow> jsval" where
  "or_null v = (if truthy v then v else Null)"

subsection \<open>\<^verbatim>\<open>parseInt\<close> with one argument\<close>

text \<open>White space and line terminators of ECMAScript, as code units.\<close>

definition is_whitespace :: "nat \<Rightarrow> bool" where
  "is_whitespace c \<longleftrightarrow>
     c \<in> {9, 10, 11, 12, 13, 32, 160, 5760, 8232, 8233, 8239, 8287, 12288, 65279}
     \<or> (8192 \<le> c \<and> c \<le> 8202)"

definition digit_value :: "nat \<Rightarrow> nat option" where
  "digit_value c =
     (if 48 \<le> c \<and> c \<le> 57 then Some (c - 48)
      else if 97 \<le> c \<and> c \<le> 122 then Some (c - 87)
      else if 65 \<le> c \<and> c \<le> 90 then Some (c - 55)
      else None)"

definition is_digit :: "nat \<Rightarrow> nat \<Rightarrow> bool" where
  "is_digit R c = (case digit_value c of Some d \<Rightarrow> d < R | None \<Rightarrow> False)"

definition digits_value :: "nat \<Rightarrow> jsstring \<Rightarrow> nat" where
  "digits_value R Z =
     foldl (\<lambda>acc c. acc * R + (case digit_value c of Some d \<Rightarrow> d | None \<Rightarrow> 0)) 0 Z"

fun strip_sign :: "jsstring \<Rightarrow> int \<times> jsstring" where
  "strip_sign (c # S) =
     (if c = 45 then (- 1, S) else if c = 43 then (1, S) else (1, c # S))"
| "strip_sign [] = (1, [])"

fun strip_prefix :: "jsstring \<Rightarrow> nat \<times> jsstring" where
  "strip_prefix (c # d # S) =
     (if c = 48 \<and> (d = 120 \<or> d = 88) then (16, S) else (10, c # d # S))"
| "strip_prefix S = (10, S)"

text \<open>
  \<^verbatim>\<open>parseInt(string)\<close>: skip leading white space, take a sign, take a \<^verbatim>\<open>0x\<close> prefix
  (radix 16, else 10), read the longest run of digits and ignore the rest; no digit
  gives \<^verbatim>\<open>NaN\<close>. The integer read is rounded to a double. (A run of digits beyond the
  range of doubles reads as \<^verbatim>\<open>Infinity\<close> in JavaScript and as a large finite number here;
  both exceed every bound the handler compares them with.)
\<close>

definition parseInt :: "jsstring \<Rightarrow> jsnum" where
  "parseInt string =
     (case strip_sign (dropWhile is_whitespace string) of (sign, S) \<Rightarrow>
      (case strip_prefix S of (R, S') \<Rightarrow>
        (let Z = takeWhile (is_digit R) S' in
         if Z = [] then NaN
         else Finite (fl (of_int (sign * int (digits_value R Z)))))))"

section \<open>The request, the upload middleware and the error handler\<close>

text \<open>
  An uploaded file as the handler sees it in \<^verbatim>\<open>req.files\<close>. \<open>path\<close> is where the disk
  storage of lines 26 to 32 has put the file; its naming is not modelled.
\<close>

record uploaded_file =
  fieldname :: jsstring
  originalname :: jsstring
  mimetype :: jsstring
  path :: jsstring

text \<open>The query parameters are absent or strings (a parameter repeated in the query
  string, which Express hands over as an array, is not modelled). \<open>parts\<close> are the file
  parts of the multipart body in the order sent, \<open>None\<close> for a request that is not
  multipart.\<close>

record request =
  query_width :: "jsstring option"
  query_height :: "jsstring option"
  query_quality :: "jsstring option"
  query_maintainAspectRatio :: "jsstring option"
  parts :: "uploaded_file list option"

datatype multer_code = LIMIT_FILE_COUNT | LIMIT_UNEXPECTED_FILE

datatype exn = Error jsstring | MulterError multer_code

fun message :: "exn \<Rightarrow> jsstring" where
  "message (Error m) = m"
| "message (MulterError LIMIT_FILE_COUNT) = str ''Too many files''"
| "message (MulterError LIMIT_UNEXPECTED_FILE) = str ''Unexpected field''"

datatype json = Urls "jsstring list" | ErrorBody jsstring

record response =
  status :: nat
  body :: json

definition fileFilter :: "uploaded_file \<Rightarrow> exn + bool" where
  "fileFilter f =
     (if prefix (str ''image/'') (mimetype f) then Inr True
      else Inl (Error (str ''Only image files are allowed'')))"

text \<open>
  \<^verbatim>\<open>upload.array("images", 20)\<close> with \<^verbatim>\<open>limits: { files: 20 }\<close>, after the documented
  behaviour of the multer library: the parts are taken in order; a file part beyond the
  limit of 20 files ends the upload with \<^verbatim>\<open>LIMIT_FILE_COUNT\<close>, a part of another field
  or beyond \<^verbatim>\<open>maxCount\<close> with \<^verbatim>\<open>LIMIT_UNEXPECTED_FILE\<close>, and the error of \<open>fileFilter\<close>
  ends it likewise. Any of these goes to the error handler, not to the route handler.
  \<open>n\<close> counts the files seen, \<open>filesLeft\<close> what \<^verbatim>\<open>maxCount\<close> still allows.
\<close>

fun upload_array :: "nat \<Rightarrow> nat \<Rightarrow> uploaded_file list \<Rightarrow> exn + uploaded_file list" where
  "upload_array n filesLeft [] = Inr []"
| "upload_array n filesLeft (f # fs) =
     (if 20 \<le> n then Inl (MulterError LIMIT_FILE_COUNT)
      else if fieldname f \<noteq> str ''images'' \<or> filesLeft = 0
        then Inl (MulterError LIMIT_UNEXPECTED_FILE)
      else (case fileFilter f of
          Inl err \<Rightarrow> Inl err
        | Inr _ \<Rightarrow>
            (case upload_array (Suc n) (filesLeft - 1) fs of
               Inl err \<Rightarrow> Inl err
             | Inr files \<Rightarrow> Inr (f # files))))"

text \<open>The middleware leaves \<^verbatim>\<open>req.files\<close> undefined for a body that is not multipart.\<close>

definition upload :: "request \<Rightarrow> exn + uploaded_file list option" where
  "upload req =
     (case parts req of
        None \<Rightarrow> Inr None
      | Some ps \<Rightarrow> (case upload_array 0 20 ps of Inl err \<Rightarrow> Inl err | Inr fs \<Rightarrow> Inr (Some fs)))"

text \<open>The error-handling middleware of lines 133 to 140.\<close>

definition error_handler :: "exn \<Rightarrow> response" where
  "error_handler err =
     (if message err = str ''Only image files are allowed''
      then \<lparr>status = 400, body = ErrorBody (message err)\<rparr>
      else \<lparr>status = 500, body = ErrorBody (str ''Internal server error'')\<rparr>)"

section \<open>The resize plan\<close>

text \<open>
  Lines 94 to 112. \<open>metadata\<close> is the pair \<^verbatim>\<open>(metadata.width, metadata.height)\<close> that the
  image library reports, in pixels. The result is \<^verbatim>\<open>(targetWidth, targetHeight)\<close>.
\<close>

definition resize_plan :: "bool \<Rightarrow> jsval \<Rightarrow> jsval \<Rightarrow> nat \<times> nat \<Rightarrow> jsval \<times> jsval" where
  "resize_plan maintainAspectRatio width height metadata =
     (let originalWidth = Finite (of_nat (fst metadata));
          originalHeight = Finite (of_nat (snd metadata));
          targetWidth = width;
          targetHeight = height
      in if maintainAspectRatio then
           (let aspectRatio = js_div originalWidth originalHeight in
            if truthy width \<and> truthy height then
              (if js_gt (js_div (ToNumber width) (ToNumber height)) aspectRatio
               then (Number (Math_round (js_mul (ToNumber height) aspectRatio)), targetHeight)
               else (targetWidth, Number (Math_round (js_div (ToNumber width) aspectRatio))))
            else if truthy width then
              (targetWidth, Number (Math_round (js_div (ToNumber width) aspectRatio)))
            else if truthy height then
              (Number (Math_round (js_mul (ToNumber height) aspectRatio)), targetHeight)
            else (targetWidth, targetHeight))
         else (targetWidth, targetHeight))"

section \<open>The image pipeline\<close>

text \<open>
  A \<^verbatim>\<open>sharp\<close> object is the input path and the operations queued on it. \<open>resize_to\<close> is
  \<open>None\<close> until \<^verbatim>\<open>resize\<close> is called; \<open>webp_quality\<close> is \<open>None\<close> until \<^verbatim>\<open>webp\<close> is.
\<close>

record pipeline =
  input_path :: jsstring
  resize_to :: "(jsval \<times> jsval) option"
  webp_quality :: "jsnum option"

definition sharp :: "jsstring \<Rightarrow> pipeline" where
  "sharp inputPath = \<lparr>input_path = inputPath, resize_to = None, webp_quality = None\<rparr>"

text \<open>\<^verbatim>\<open>resize\<close> accepts, for each dimension, \<^verbatim>\<open>null\<close> or a positive integer, and throws
  on anything else (the handler never reads the message of the exception).\<close>

fun valid_dimension :: "jsval \<Rightarrow> bool" where
  "valid_dimension Null = True"
| "valid_dimension (Number (Finite x)) = (0 < x \<and> x = of_int \<lfloor>x\<rfloor>)"
| "valid_dimension (Number _) = False"

definition resize :: "pipeline \<Rightarrow> jsval \<Rightarrow> jsval \<Rightarrow> exn + pipeline" where
  "resize img w h =
     (if valid_dimension w \<and> valid_dimension h
      then Inr (img\<lparr>resize_to := Some (w, h)\<rparr>)
      else Inl (Error (str ''Invalid resize parameters'')))"

definition webp :: "pipeline \<Rightarrow> jsnum \<Rightarrow> pipeline" where
  "webp img quality = img\<lparr>webp_quality := Some quality\<rparr>"

text \<open>
  What the route handler cannot decide is a parameter: the directory of the outputs,
  the clock and the random numbers of each loop iteration (counted from 0), and what
  the image library answers. \<open>sharp_metadata\<close> and \<open>sharp_toFile\<close> may reject, which
  \<^verbatim>\<open>await\<close> turns into an exception. \<open>sharp_scale\<close> is the size the library gives to an
  image of the given size under a resize to the given dimensions.
\<close>

record env =
  outputDir :: jsstring
  Date_now :: "nat \<Rightarrow> nat"
  Math_random :: "nat \<Rightarrow> nat"
  sharp_metadata :: "jsstring \<Rightarrow> exn + nat \<times> nat"
  sharp_toFile :: "pipeline \<Rightarrow> jsstring \<Rightarrow> exn option"
  sharp_scale :: "nat \<times> nat \<Rightarrow> jsval \<times> jsval \<Rightarrow> nat \<times> nat"

text \<open>One file written by \<^verbatim>\<open>toFile\<close>: where, from which pipeline, and its pixel size.\<close>

record written_file =
  outputPath :: jsstring
  written :: pipeline
  size_px :: "nat \<times> nat"

definition output_size :: "env \<Rightarrow> nat \<times> nat \<Rightarrow> pipeline \<Rightarrow> nat \<times> nat" where
  "output_size e metadata img =
     (case resize_to img of None \<Rightarrow> metadata | Some wh \<Rightarrow> sharp_scale e metadata wh)"

section \<open>The route handler\<close>

text \<open>The decimal digits of a natural number, as the template literal prints it.\<close>

fun decimal :: "nat \<Rightarrow> jsstring" where
  "decimal n = (if n < 10 then [48 + n] else decimal (n div 10) @ [48 + n mod 10])"

declare decimal.simps [simp del]

definition path_join :: "jsstring \<Rightarrow> jsstring \<Rightarrow> jsstring" where
  "path_join dir name = dir @ str ''/'' @ name"

text \<open>\<open>Math_random e i\<close> stands for \<^verbatim>\<open>Math.round(Math.random() * 1e5)\<close> in iteration \<open>i\<close>.\<close>

definition outputFilename :: "env \<Rightarrow> nat \<Rightarrow> jsstring" where
  "outputFilename e i = decimal (Date_now e i) @ str ''-'' @ decimal (Math_random e i) @ str ''.webp''"

definition public_url :: "jsstring \<Rightarrow> jsstring" where
  "public_url name = str ''https://webp-convertor-backend.onrender.com/images/'' @ name"

text \<open>Lines 53 to 56: the parameters as the handler reads them.\<close>

definition parse_dimension :: "jsstring option \<Rightarrow> jsval" where
  "parse_dimension q = (case q of None \<Rightarrow> Null | Some s \<Rightarrow> if s \<noteq> [] then Number (parseInt s) else Null)"

definition parse_quality :: "jsstring option \<Rightarrow> jsnum" where
  "parse_quality q = (case q of None \<Rightarrow> Finite 80 | Some s \<Rightarrow> if s \<noteq> [] then parseInt s else Finite 80)"

definition parse_flag :: "jsstring option \<Rightarrow> bool" where
  "parse_flag q = (q = Some (str ''true''))"

text \<open>Lines 59 to 65: the condition under which the handler answers 400.\<close>

definition invalid_params :: "jsval \<Rightarrow> jsval \<Rightarrow> jsnum \<Rightarrow> bool" where
  "invalid_params width height quality \<longleftrightarrow>
     (truthy width \<and> (js_lt (ToNumber width) (Finite 1) \<or> js_gt (ToNumber width) (Finite 5000)))
   \<or> (truthy height \<and> (js_lt (ToNumber height) (Finite 1) \<or> js_gt (ToNumber height) (Finite 5000)))
   \<or> isNaN quality
   \<or> js_lt quality (Finite 1)
   \<or> js_gt quality (Finite 100)"

text \<open>Lines 114 to 116: the resize step, skipped when both targets are falsy; a falsy
  target is handed to \<^verbatim>\<open>resize\<close> as \<^verbatim>\<open>null\<close>.\<close>

fun apply_plan :: "pipeline \<Rightarrow> jsval \<times> jsval \<Rightarrow> exn + pipeline" where
  "apply_plan img (targetWidth, targetHeight) =
     (if truthy targetWidth \<or> truthy targetHeight
      then resize img (or_null targetWidth) (or_null targetHeight)
      else Inr img)"

text \<open>
  Lines 82 to 122, the body of the loop in iteration \<open>i\<close>: the URL pushed and the file
  written, or the exception thrown.
\<close>

definition convert_file ::
  "env \<Rightarrow> jsval \<Rightarrow> jsval \<Rightarrow> jsnum \<Rightarrow> bool \<Rightarrow> nat \<Rightarrow> uploaded_file \<Rightarrow> exn + jsstring \<times> written_file" where
  "convert_file e width height quality maintainAspectRatio i f =
     (let inputPath = path f;
          name = outputFilename e i;
          outPath = path_join (outputDir e) name;
          img = sharp inputPath
      in case sharp_metadata e inputPath of
           Inl err \<Rightarrow> Inl err
         | Inr metadata \<Rightarrow>
            (case apply_plan img (resize_plan maintainAspectRatio width height metadata) of
               Inl err \<Rightarrow> Inl err
             | Inr img' \<Rightarrow>
                (case sharp_toFile e (webp img' quality) outPath of
                   Some err \<Rightarrow> Inl err
                 | None \<Rightarrow>
                     Inr (public_url name,
                          \<lparr>outputPath = outPath, written = webp img' quality,
                           size_px = output_size e metadata img'\<rparr>))))"

text \<open>
  The loop of line 81, from iteration \<open>i\<close> on, with \<^verbatim>\<open>urls\<close> and the files written so
  far. An exception leaves the loop at once, with the files written until then.
\<close>

fun convert_all ::
  "env \<Rightarrow> jsval \<Rightarrow> jsval \<Rightarrow> jsnum \<Rightarrow> bool \<Rightarrow> nat \<Rightarrow> uploaded_file list \<Rightarrow> jsstring list \<Rightarrow> written_file list
    \<Rightarrow> (exn + jsstring list) \<times> written_file list" where
  "convert_all e width height quality keep i [] urls outs = (Inr urls, outs)"
| "convert_all e width height quality keep i (f # fs) urls outs =
     (case convert_file e width height quality keep i f of
        Inl err \<Rightarrow> (Inl err, outs)
      | Inr (url, out) \<Rightarrow>
          convert_all e width height quality keep (Suc i) fs (urls @ [url]) (outs @ [out]))"

text \<open>
  The handler of lines 51 to 130, given \<^verbatim>\<open>req.files\<close> as the middleware left it: the
  response and the files written to the output directory.
\<close>

definition post_upload :: "env \<Rightarrow> request \<Rightarrow> uploaded_file list option \<Rightarrow> response \<times> written_file list" where
  "post_upload e req files =
     (let width = parse_dimension (query_width req);
          height = parse_dimension (query_height req);
          quality = parse_quality (query_quality req);
          maintainAspectRatio = parse_flag (query_maintainAspectRatio req)
      in if invalid_params width height quality
         then (\<lparr>status = 400, body = ErrorBody (str ''Invalid width, height, or quality'')\<rparr>, [])
         else (case files of
            None \<Rightarrow> (\<lparr>status = 400, body = ErrorBody (str ''No images provided'')\<rparr>, [])
          | Some fs \<Rightarrow>
             if length fs = 0
             then (\<lparr>status = 400, body = ErrorBody (str ''No images provided'')\<rparr>, [])
             else if 20 < length fs
             then (\<lparr>status = 400, body = ErrorBody (str ''Maximum 20 images allowed'')\<rparr>, [])
             else (case convert_all e width height quality maintainAspectRatio 0 fs [] [] of
                 (Inl err, outs) \<Rightarrow>
                   (\<lparr>status = 500, body = ErrorBody (str ''Image conversion failed'')\<rparr>, outs)
               | (Inr urls, outs) \<Rightarrow> (\<lparr>status = 200, body = Urls urls\<rparr>, outs))))"

text \<open>The route as Express runs it: the upload middleware, then the handler, or the
  error handler when the middleware fails.\<close>

definition app_post_upload :: "env \<Rightarrow> request \<Rightarrow> response \<times> written_file list" where
  "app_post_upload e req =
     (case upload req of
        Inl err \<Rightarrow> (error_handler err, [])
      | Inr files \<Rightarrow> post_upload e req files)"

section \<open>Vocabulary of the statements\<close>

text \<open>The handler's own reading of a request: whether it answers 400 for the
  parameters, and the loop body in iteration \<open>i\<close> under the request's parameters.\<close>

definition params_invalid :: "request \<Rightarrow> bool" where
  "params_invalid req =
     invalid_params (parse_dimension (query_width req)) (parse_dimension (query_height req))
       (parse_quality (query_quality req))"

definition convert_nth ::
  "env \<Rightarrow> request \<Rightarrow> nat \<Rightarrow> uploaded_file \<Rightarrow> exn + jsstring \<times> written_file" where
  "convert_nth e req i f =
     convert_file e (parse_dimension (query_width req)) (parse_dimension (query_height req))
       (parse_quality (query_quality req)) (parse_flag (query_maintainAspectRatio req)) i f"

text \<open>A file part that the upload middleware lets through: sent in the field
  \<^verbatim>\<open>images\<close> with an image MIME type.\<close>

definition image_part :: "uploaded_file \<Rightarrow> bool" where
  "image_part f \<longleftrightarrow> fieldname f = str ''images'' \<and> prefix (str ''image/'') (mimetype f)"

subsection \<open>The arithmetic of the specification\<close>

text \<open>
  The specification words the plan in exact arithmetic: the aspect ratio is the
  real-valued quotient of the source's width and height, and rounding is to the nearest
  integer, a tie going away from zero. These two definitions follow its words, for
  comparison with what the code computes in doubles.
\<close>

definition spec_round :: "rat \<Rightarrow> int" where
  "spec_round x = (if 0 \<le> x then \<lfloor>x + 1 / 2\<rfloor> else - \<lfloor>- x + 1 / 2\<rfloor>)"

definition spec_aspectRatio :: "nat \<times> nat \<Rightarrow> rat" where
  "spec_aspectRatio metadata = of_nat (fst metadata) / of_nat (snd metadata)"

text \<open>
  \<open>double_rounding n x\<close>: the integer \<open>n\<close> is the rounding of some value within the relative
  error \<open>2^-51\<close> of the exact \<open>x\<close>. It is then the exact rounding of \<open>x\<close>, unless \<open>x\<close> is
  that close to a tie.
\<close>

definition double_rounding :: "int \<Rightarrow> rat \<Rightarrow> bool" where
  "double_rounding n x \<longleftrightarrow>
     spec_round (x - x / 2 ^ 51) \<le> n \<and> n \<le> spec_round (x + x / 2 ^ 51)
     \<and> (spec_round (x - x / 2 ^ 51) = spec_round (x + x / 2 ^ 51) \<longrightarrow> n = spec_round x)"

subsection \<open>Concrete requests and environments\<close>

definition example_image :: uploaded_file where
  "example_image = \<lparr>fieldname = str ''images'', originalname = str ''cat.png'',
     mimetype = str ''image/png'', path = str ''uploads/1-2.png''\<rparr>"

definition example_photo :: uploaded_file where
  "example_photo = \<lparr>fieldname = str ''images'', originalname = str ''dog.jpg'',
     mimetype = str ''image/jpeg'', path = str ''uploads/3-4.jpg''\<rparr>"

text \<open>An environment in which every image is 800 by 600 and every step succeeds.\<close>

definition example_env :: env where
  "example_env = \<lparr>outputDir = str ''public/images'', Date_now = (\<lambda>i. 1700000000000 + i),
     Math_random = (\<lambda>i. 4711), sharp_metadata = (\<lambda>p. Inr (800, 600)),
     sharp_toFile = (\<lambda>img p. None), sharp_scale = (\<lambda>m wh. m)\<rparr>"

text \<open>The same, but the image library cannot read \<^verbatim>\<open>uploads/3-4.jpg\<close>.\<close>

definition failing_env :: env where
  "failing_env = example_env\<lparr>sharp_metadata :=
     (\<lambda>p. if p = str ''uploads/3-4.jpg''
          then Inl (Error (str ''Input file contains unsupported image format''))
          else Inr (800, 600))\<rparr>"

definition example_request :: request where
  "example_request = \<lparr>query_width = None, query_height = None, query_quality = None,
     query_maintainAspectRatio = None, parts = Some [example_image]\<rparr>"

definition example_batch :: request where
  "example_batch = example_request\<lparr>parts := Some [example_image, example_photo, example_image]\<rparr>"

section \<open>Evaluation\<close>

lemmas model_defs = app_post_upload_def upload_def fileFilter_def error_handler_def
  post_upload_def parse_dimension_def parse_quality_def parse_flag_def invalid_params_def
  convert_file_def resize_plan_def Let_def sharp_def resize_def webp_def output_size_def
  outputFilename_def public_url_def path_join_def or_null_def js_gt_def isNaN_def parseInt_def
  is_whitespace_def digit_value_def is_digit_def digits_value_def str_def decimal.simps
  params_invalid_def convert_nth_def image_part_def

lemmas example_defs = example_image_def example_photo_def example_env_def failing_env_def
  example_request_def example_batch_def

lemma fl_0: "fl 0 = 0"
  by (simp add: fl_def)

lemma Inr_pair_iff: "(\<exists>a b. x = Inr (a, b)) \<longleftrightarrow> (case x of Inl _ \<Rightarrow> False | Inr _ \<Rightarrow> True)"
  by (cases x) auto

section \<open>Rounding to a double\<close>

text \<open>The binary exponent brackets its argument, and \<open>fl\<close> is monotone with a
  relative error of at most \<open>2^-53\<close>.\<close>

lemma pow2_powi: "pow2 e = 2 powi e"
  by (simp add: pow2_def power_int_def power_inverse [symmetric] inverse_eq_divide power_one_over)

lemma pow2_pos: "0 < pow2 e"
  by (simp add: pow2_powi)

lemma pow2_add: "pow2 (a + b) = pow2 a * pow2 b"
  by (simp add: pow2_powi power_int_add)

lemma pow2_diff: "pow2 (a - b) = pow2 a / pow2 b"
  by (simp add: pow2_powi power_int_diff)

lemma pow2_mono: "a \<le> b \<Longrightarrow> pow2 a \<le> pow2 b"
  by (simp add: pow2_powi power_int_increasing)

lemma pow2_nat: "pow2 (int n) = 2 ^ n"
  by (simp add: pow2_powi)

lemma bitlen_pow2:
  assumes "0 < p"
  shows "pow2 (bitlen p - 1) \<le> of_int p" and "of_int p < pow2 (bitlen p)"
proof -
  from bitlen_bounds [OF assms]
  have lo: "2 ^ nat (bitlen p - 1) \<le> p" and hi: "p < 2 ^ nat (bitlen p)" by auto
  have pos: "1 \<le> bitlen p" using assms by (auto simp: bitlen_alt_def)
  have "pow2 (bitlen p - 1) = of_int (2 ^ nat (bitlen p - 1))"
    using pos by (simp add: pow2_def)
  also have "\<dots> \<le> of_int p" using lo by (simp only: of_int_le_iff)
  finally show "pow2 (bitlen p - 1) \<le> of_int p" .
  have "(of_int p :: rat) < of_int (2 ^ nat (bitlen p))" using hi by (simp only: of_int_less_iff)
  also have "\<dots> = pow2 (bitlen p)" using pos by (simp add: pow2_def)
  finally show "of_int p < pow2 (bitlen p)" .
qed

lemma expo_bounds:
  assumes "0 < x"
  shows "pow2 (expo x) \<le> x" and "x < pow2 (expo x + 1)"
proof -
  obtain p q where pq: "quotient_of x = (p, q)" by (cases "quotient_of x")
  then have q: "0 < q" and x: "x = of_int p / of_int q"
    by (auto dest: quotient_of_denom_pos quotient_of_div)
  have p: "0 < p" using assms q x by (simp add: zero_less_divide_iff)
  let ?e = "bitlen p - bitlen q"
  note bp = bitlen_pow2 [OF p] and bq = bitlen_pow2 [OF q]
  have qpos: "(0::rat) < of_int q" using q by simp
  have "x < pow2 (bitlen p) / pow2 (bitlen q - 1)"
    unfolding x using bp(2) bq(1) p pow2_pos [of "bitlen q - 1"]
    by (intro frac_less) auto
  also have "\<dots> = pow2 (bitlen p - (bitlen q - 1))"
    by (rule pow2_diff [symmetric])
  also have "bitlen p - (bitlen q - 1) = ?e + 1" by simp
  finally have hi: "x < pow2 (?e + 1)" .
  have "?e - 1 = bitlen p - 1 - bitlen q" by simp
  then have "pow2 (?e - 1) = pow2 (bitlen p - 1) / pow2 (bitlen q)"
    by (simp only: pow2_diff)
  also have "\<dots> \<le> x"
    unfolding x using bp(1) bq(2) qpos pow2_pos [of "bitlen p - 1"]
    by (intro frac_le) auto
  finally have lo: "pow2 (?e - 1) \<le> x" .
  have e: "expo x = (if pow2 ?e \<le> x then ?e else ?e - 1)"
    by (simp add: expo_def pq Let_def)
  show "pow2 (expo x) \<le> x" using lo by (simp add: e)
  show "x < pow2 (expo x + 1)" using hi by (auto simp: e)
qed

lemma expo_mono:
  assumes "0 < x" "x \<le> y"
  shows "expo x \<le> expo y"
proof (rule ccontr)
  assume "\<not> expo x \<le> expo y"
  then have "expo y + 1 \<le> expo x" by simp
  then have "pow2 (expo y + 1) \<le> pow2 (expo x)" by (rule pow2_mono)
  moreover have "y < pow2 (expo y + 1)" using assms by (intro expo_bounds) simp
  moreover have "pow2 (expo x) \<le> x" using assms by (intro expo_bounds)
  ultimately show False using assms by simp
qed

lemma round_even_error: "\<bar>of_int (round_even y) - y\<bar> \<le> 1 / 2"
proof -
  have "of_int \<lfloor>y\<rfloor> \<le> y" "y < of_int \<lfloor>y\<rfloor> + 1" by linarith+
  then show ?thesis
    by (auto simp: round_even_def Let_def)
qed

lemma round_even_of_int: "round_even (of_int n) = n"
  by (simp add: round_even_def)

lemma round_even_mono:
  assumes "y \<le> z"
  shows "round_even y \<le> round_even z"
proof -
  have f: "\<lfloor>y\<rfloor> \<le> \<lfloor>z\<rfloor>" using assms by (rule floor_mono)
  have fy: "of_int \<lfloor>y\<rfloor> \<le> y" "y < of_int \<lfloor>y\<rfloor> + 1" by linarith+
  have fz: "of_int \<lfloor>z\<rfloor> \<le> z" "z < of_int \<lfloor>z\<rfloor> + 1" by linarith+
  show ?thesis
  proof (cases "\<lfloor>y\<rfloor> = \<lfloor>z\<rfloor>")
    case True
    with assms show ?thesis
      by (auto simp: round_even_def Let_def)
  next
    case False
    with f have "\<lfloor>y\<rfloor> + 1 \<le> \<lfloor>z\<rfloor>" by simp
    moreover have "round_even y \<le> \<lfloor>y\<rfloor> + 1" by (simp add: round_even_def Let_def)
    moreover have "\<lfloor>z\<rfloor> \<le> round_even z" by (simp add: round_even_def Let_def)
    ultimately show ?thesis by linarith
  qed
qed

lemma pow2_split: "pow2 (e + int n) = pow2 e * 2 ^ n"
  by (simp only: pow2_add pow2_nat)

lemma fl_pos_eq:
  "0 < x \<Longrightarrow> fl x = of_int (round_even (x / pow2 (expo x - 52))) * pow2 (expo x - 52)"
  by (simp add: fl_def Let_def)

lemma fl_minus: "fl (- x) = - fl x"
  by (simp add: fl_def Let_def sgn_minus)

lemma round_even_nonneg: "0 \<le> y \<Longrightarrow> 0 \<le> round_even y"
  using round_even_mono [of 0 y] round_even_of_int [of 0] by simp

lemma fl_nonneg: "0 \<le> x \<Longrightarrow> 0 \<le> fl x"
proof (cases "x = 0")
  case True
  then show ?thesis by (simp add: fl_def)
next
  case False
  assume "0 \<le> x"
  with False have x: "0 < x" by simp
  have "0 \<le> x / pow2 (expo x - 52)" using x pow2_pos [of "expo x - 52"] by simp
  then have "0 \<le> round_even (x / pow2 (expo x - 52))" by (rule round_even_nonneg)
  then show ?thesis
    using pow2_pos [of "expo x - 52"] by (simp add: fl_pos_eq [OF x])
qed

lemma fl_error_pos:
  assumes "0 < x"
  shows "\<bar>fl x - x\<bar> \<le> x / 2 ^ 53"
proof -
  let ?s = "pow2 (expo x - 52)"
  have s: "0 < ?s" by (rule pow2_pos)
  have "fl x - x = (of_int (round_even (x / ?s)) - x / ?s) * ?s"
    using s by (simp add: fl_pos_eq [OF assms] algebra_simps)
  then have "\<bar>fl x - x\<bar> = \<bar>of_int (round_even (x / ?s)) - x / ?s\<bar> * ?s"
    using s by (simp add: abs_mult)
  also have "\<dots> \<le> 1 / 2 * ?s"
    using s round_even_error [of "x / ?s"] by (intro mult_right_mono) auto
  also have "?s = pow2 (expo x) / pow2 52" by (rule pow2_diff)
  also have "pow2 52 = 2 ^ 52" using pow2_nat [of 52] by simp
  also have "1 / 2 * (pow2 (expo x) / 2 ^ 52) = pow2 (expo x) / 2 ^ 53" by simp
  also have "\<dots> \<le> x / 2 ^ 53"
    using expo_bounds(1) [OF assms] by (intro divide_right_mono) auto
  finally show ?thesis .
qed

lemma fl_error: "\<bar>fl x - x\<bar> \<le> \<bar>x\<bar> / 2 ^ 53"
proof -
  consider "x = 0" | "0 < x" | "x < 0" by linarith
  then show ?thesis
  proof cases
    case 1
    then show ?thesis by (simp add: fl_def)
  next
    case 2
    then show ?thesis using fl_error_pos [of x] by simp
  next
    case 3
    then have "\<bar>fl (- x) - (- x)\<bar> \<le> (- x) / 2 ^ 53" by (intro fl_error_pos) simp
    with 3 show ?thesis by (simp add: fl_minus abs_if split: if_splits)
  qed
qed

lemma fl_pos: "0 < x \<Longrightarrow> 0 < fl x"
proof -
  assume x: "0 < x"
  have "x / 2 ^ 53 < x" using x by (simp add: field_simps)
  with fl_error_pos [OF x] show ?thesis by linarith
qed

lemma fl_le_pow2:
  assumes "0 < x"
  shows "fl x \<le> pow2 (expo x + 1)"
proof -
  let ?s = "pow2 (expo x - 52)"
  have s: "0 < ?s" by (rule pow2_pos)
  have "pow2 (expo x + 1) = pow2 ((expo x - 52) + int 53)"
    by (rule arg_cong [where f = pow2]) simp
  also have "\<dots> = ?s * 2 ^ 53" by (rule pow2_split)
  finally have p: "pow2 (expo x + 1) = ?s * 2 ^ 53" .
  have "x < ?s * 2 ^ 53" using expo_bounds(2) [OF assms] unfolding p .
  then have "x / ?s \<le> of_int (2 ^ 53)"
    using s by (simp add: field_simps)
  then have "round_even (x / ?s) \<le> 2 ^ 53"
    using round_even_mono [of "x / ?s" "of_int (2 ^ 53)"] by (simp only: round_even_of_int)
  then have "(of_int (round_even (x / ?s)) :: rat) \<le> 2 ^ 53"
    by (metis of_int_le_iff of_int_numeral of_int_power)
  then show ?thesis
    using s by (simp add: fl_pos_eq [OF assms] p mult.commute)
qed

lemma fl_ge_pow2:
  assumes "0 < x"
  shows "pow2 (expo x) \<le> fl x"
proof -
  let ?s = "pow2 (expo x - 52)"
  have s: "0 < ?s" by (rule pow2_pos)
  have "pow2 (expo x) = pow2 ((expo x - 52) + int 52)"
    by (rule arg_cong [where f = pow2]) simp
  also have "\<dots> = ?s * 2 ^ 52" by (rule pow2_split)
  finally have p: "pow2 (expo x) = ?s * 2 ^ 52" .
  have "?s * 2 ^ 52 \<le> x" using expo_bounds(1) [OF assms] unfolding p .
  then have "of_int (2 ^ 52) \<le> x / ?s"
    using s by (simp add: field_simps)
  then have "2 ^ 52 \<le> round_even (x / ?s)"
    using round_even_mono [of "of_int (2 ^ 52)" "x / ?s"] by (simp only: round_even_of_int)
  then have "(2 ^ 52 :: rat) \<le> of_int (round_even (x / ?s))"
    by (metis of_int_le_iff of_int_numeral of_int_power)
  then show ?thesis
    using s by (simp add: fl_pos_eq [OF assms] p mult.commute)
qed

lemma fl_mono_pos:
  assumes "0 < x" "x \<le> y"
  shows "fl x \<le> fl y"
proof -
  have y: "0 < y" using assms by simp
  have e: "expo x \<le> expo y" using assms by (rule expo_mono)
  show ?thesis
  proof (cases "expo x = expo y")
    case True
    let ?s = "pow2 (expo y - 52)"
    have s: "0 < ?s" by (rule pow2_pos)
    have "x / ?s \<le> y / ?s" using assms(2) s by (simp add: divide_right_mono)
    then have "round_even (x / ?s) \<le> round_even (y / ?s)" by (rule round_even_mono)
    then have "(of_int (round_even (x / ?s)) :: rat) \<le> of_int (round_even (y / ?s))" by simp
    then show ?thesis
      using s by (simp add: fl_pos_eq [OF assms(1)] fl_pos_eq [OF y] True)
  next
    case False
    with e have "expo x + 1 \<le> expo y" by simp
    then have "pow2 (expo x + 1) \<le> pow2 (expo y)" by (rule pow2_mono)
    with fl_le_pow2 [OF assms(1)] fl_ge_pow2 [OF y] show ?thesis by linarith
  qed
qed

lemma fl_mono:
  assumes "x \<le> y"
  shows "fl x \<le> fl y"
proof -
  consider "0 < x" | "x \<le> 0" "0 \<le> y" | "y < 0" by linarith
  then show ?thesis
  proof cases
    case 1
    then show ?thesis using assms by (rule fl_mono_pos)
  next
    case 2
    then have "0 \<le> fl (- x)" "0 \<le> fl y" by (simp_all add: fl_nonneg)
    then show ?thesis by (simp add: fl_minus)
  next
    case 3
    then have "fl (- y) \<le> fl (- x)" using assms by (intro fl_mono_pos) simp_all
    then show ?thesis by (simp add: fl_minus)
  qed
qed

text \<open>An integer of fewer than 54 bits is a double.\<close>

lemma pow2_neg: "pow2 (- int k) = 1 / 2 ^ k"
  by (simp add: pow2_powi power_int_minus_divide)

lemma fl_of_int_pos:
  assumes "0 < n" "n < 2 ^ 53"
  shows "fl (of_int n) = of_int n"
proof -
  let ?x = "of_int n :: rat"
  have x: "0 < ?x" using assms by simp
  have x1: "1 \<le> ?x" using assms by simp
  have x53: "?x < 2 ^ 53" using assms(2) by (metis of_int_less_iff of_int_numeral of_int_power)
  have lo: "pow2 (expo ?x) \<le> ?x" and hi: "?x < pow2 (expo ?x + 1)"
    using expo_bounds [OF x] by simp_all
  have "expo ?x \<le> 52"
  proof (rule ccontr)
    assume "\<not> expo ?x \<le> 52"
    then have "pow2 (int 53) \<le> pow2 (expo ?x)" by (intro pow2_mono) simp
    then have "2 ^ 53 \<le> pow2 (expo ?x)" by (simp only: pow2_nat)
    with lo x53 show False by linarith
  qed
  moreover have "0 \<le> expo ?x"
  proof (rule ccontr)
    assume "\<not> 0 \<le> expo ?x"
    then have "pow2 (expo ?x + 1) \<le> pow2 (int 0)" by (intro pow2_mono) simp
    then have "pow2 (expo ?x + 1) \<le> 1" by (simp only: pow2_nat power_0)
    with hi x1 show False by linarith
  qed
  ultimately obtain k :: nat where k: "expo ?x - 52 = - int k"
    by (metis add.commute add_diff_cancel_left' diff_ge_0_iff_ge minus_diff_eq nonneg_int_cases uminus_add_conv_diff)
  have "?x / pow2 (expo ?x - 52) = of_int (n * 2 ^ k)"
    by (simp add: k pow2_neg)
  then have "round_even (?x / pow2 (expo ?x - 52)) = n * 2 ^ k"
    by (simp only: round_even_of_int)
  then show ?thesis
    by (simp add: fl_pos_eq [OF x] k pow2_neg)
qed

lemma fl_of_int:
  assumes "\<bar>n\<bar> < 2 ^ 53"
  shows "fl (of_int n) = of_int n"
proof -
  consider "n = 0" | "0 < n" | "n < 0" by linarith
  then show ?thesis
  proof cases
    case 1
    then show ?thesis by (simp add: fl_0)
  next
    case 2
    with assms show ?thesis by (intro fl_of_int_pos) simp_all
  next
    case 3
    with assms have "fl (of_int (- n)) = of_int (- n)" by (intro fl_of_int_pos) simp_all
    then show ?thesis by (simp add: fl_minus)
  qed
qed

subsection \<open>The two recomputed dimensions\<close>

text \<open>
  For a box of at most 5000 by 5000 and a source of aspect ratio \<open>r\<close>: the width
  recomputed from the height when the box is wider than the source, and the height
  recomputed from the width otherwise, as the doubles compute them.
\<close>

lemma fl_lower: "0 < x \<Longrightarrow> x - x / 2 ^ 53 \<le> fl x"
  using fl_error_pos [of x] by linarith

lemma round_half_up_error: "\<bar>of_int \<lfloor>y + 1 / 2\<rfloor> - y\<bar> \<le> (1 / 2 :: rat)"
proof -
  have "of_int \<lfloor>y + 1 / 2\<rfloor> \<le> y + 1 / 2" "y + 1 / 2 < of_int \<lfloor>y + 1 / 2\<rfloor> + 1" by linarith+
  then show ?thesis by linarith
qed

lemma plan_width:
  fixes w h :: int and r :: rat
  assumes w: "1 \<le> w" "w \<le> 5000" and h: "1 \<le> h" "h \<le> 5000" and r: "0 < r"
    and gt: "fl r < fl (of_int w / of_int h)"
  shows "0 \<le> \<lfloor>fl (of_int h * fl r) + 1 / 2\<rfloor>"
    and "\<lfloor>fl (of_int h * fl r) + 1 / 2\<rfloor> \<le> w"
    and "\<bar>of_int \<lfloor>fl (of_int h * fl r) + 1 / 2\<rfloor> - of_int h * r\<bar> \<le> 1"
proof -
  let ?R = "fl r" and ?X = "of_int h * fl r"
  have hpos: "(0::rat) < of_int h" and wpos: "(0::rat) < of_int w" using w h by simp_all
  have hle: "(of_int h :: rat) \<le> 5000" and wle: "(of_int w :: rat) \<le> 5000"
    using w h by (simp_all add: of_int_le_iff [where 'a = rat, of _ 5000, simplified])
  have lt: "r < of_int w / of_int h"
  proof (rule ccontr)
    assume "\<not> r < of_int w / of_int h"
    then have "fl (of_int w / of_int h) \<le> fl r" by (intro fl_mono) simp
    with gt show False by simp
  qed
  then have hr: "of_int h * r < of_int w" using hpos by (simp add: field_simps)
  have hr0: "0 < of_int h * r" using hpos r by simp
  have R: "0 < ?R" using r by (rule fl_pos)
  have X: "0 < ?X" using hpos R by simp
  have "\<bar>?R - r\<bar> \<le> r / 2 ^ 53" using r by (rule fl_error_pos)
  then have "\<bar>?X - of_int h * r\<bar> \<le> of_int h * (r / 2 ^ 53)"
    using hpos by (simp add: right_diff_distrib [symmetric] abs_mult del: of_int_diff)
  also have "\<dots> = (of_int h * r) / 2 ^ 53" by simp
  also have "\<dots> \<le> of_int w / 2 ^ 53" using hr by (intro divide_right_mono) auto
  also have "\<dots> \<le> 5000 / 2 ^ 53" using wle by (intro divide_right_mono) auto
  also have "\<dots> \<le> 1 / 8" by simp
  finally have e1: "\<bar>?X - of_int h * r\<bar> \<le> 1 / 8" .
  have Xle: "?X \<le> 5001" using e1 hr wle by linarith
  have "\<bar>fl ?X - ?X\<bar> \<le> ?X / 2 ^ 53" using X by (rule fl_error_pos)
  also have "\<dots> \<le> 5001 / 2 ^ 53" using Xle by (intro divide_right_mono) auto
  also have "\<dots> \<le> 1 / 8" by simp
  finally have e2: "\<bar>fl ?X - ?X\<bar> \<le> 1 / 8" .
  have e3: "\<bar>fl ?X - of_int h * r\<bar> \<le> 1 / 4" using e1 e2 by linarith
  have e4: "\<bar>of_int \<lfloor>fl ?X + 1 / 2\<rfloor> - fl ?X\<bar> \<le> 1 / 2" by (rule round_half_up_error)
  show "\<bar>of_int \<lfloor>fl ?X + 1 / 2\<rfloor> - of_int h * r\<bar> \<le> 1" using e3 e4 by linarith
  have "fl ?X + 1 / 2 < of_int w + 1" using e3 hr by linarith
  then have "fl ?X + 1 / 2 < of_int (w + 1)" by simp
  then have "\<lfloor>fl ?X + 1 / 2\<rfloor> < w + 1" by (simp only: floor_less_iff)
  then show "\<lfloor>fl ?X + 1 / 2\<rfloor> \<le> w" by simp
  have "0 \<le> fl ?X + 1 / 2" using fl_pos [OF X] by simp
  then show "0 \<le> \<lfloor>fl ?X + 1 / 2\<rfloor>" by simp
qed

lemma plan_height:
  fixes w h :: int and r :: rat
  assumes w: "1 \<le> w" "w \<le> 5000" and h: "1 \<le> h" "h \<le> 5000" and r: "0 < r"
    and le: "\<not> fl r < fl (of_int w / of_int h)"
  shows "0 \<le> \<lfloor>fl (of_int w / fl r) + 1 / 2\<rfloor>"
    and "\<lfloor>fl (of_int w / fl r) + 1 / 2\<rfloor> \<le> h"
    and "\<bar>of_int \<lfloor>fl (of_int w / fl r) + 1 / 2\<rfloor> - of_int w / r\<bar> \<le> 1"
proof -
  let ?R = "fl r" and ?Z = "of_int w / fl r" and ?q = "of_int w / of_int h :: rat"
  have hpos: "(0::rat) < of_int h" and wpos: "(0::rat) < of_int w" using w h by simp_all
  have hle: "(of_int h :: rat) \<le> 5000" and wle: "(of_int w :: rat) \<le> 5000"
    using w h by (simp_all add: of_int_le_iff [where 'a = rat, of _ 5000, simplified])
  have q: "0 < ?q" using hpos wpos by simp
  have R: "0 < ?R" using r by (rule fl_pos)
  have Z: "0 < ?Z" using wpos R by simp
  have "?q - ?q / 2 ^ 53 \<le> fl ?q" using q by (rule fl_lower)
  also have "\<dots> \<le> ?R" using le by simp
  finally have qR: "?q * (1 - 1 / 2 ^ 53) \<le> ?R" by (simp add: algebra_simps)
  have q': "0 < ?q * (1 - 1 / 2 ^ 53)" using q by simp
  have ab: "0 < ?R * (?q * (1 - 1 / 2 ^ 53))" using R q' by (rule mult_pos_pos)
  have w0: "(0::rat) \<le> of_int w" using wpos by simp
  have "?Z \<le> of_int w / (?q * (1 - 1 / 2 ^ 53))"
    by (rule divide_left_mono [OF qR w0 ab])
  also have "\<dots> = of_int h / (1 - 1 / 2 ^ 53)"
    using hpos wpos by simp
  also have "\<dots> \<le> of_int h + 1 / 8" using hle hpos by simp
  finally have Zh: "?Z \<le> of_int h + 1 / 8" .
  then have Zle: "?Z \<le> 5001" using hle by linarith
  have "\<bar>fl ?Z - ?Z\<bar> \<le> ?Z / 2 ^ 53" using Z by (rule fl_error_pos)
  also have "\<dots> \<le> 5001 / 2 ^ 53" using Zle by (intro divide_right_mono) auto
  also have "\<dots> \<le> 1 / 16" by simp
  finally have e2: "\<bar>fl ?Z - ?Z\<bar> \<le> 1 / 16" .
  have rR: "\<bar>?R - r\<bar> \<le> r / 2 ^ 53" using r by (rule fl_error_pos)
  have "?Z - of_int w / r = ?Z * ((r - ?R) / r)"
    using R r by (simp add: field_simps)
  then have "\<bar>?Z - of_int w / r\<bar> = \<bar>?Z * ((r - ?R) / r)\<bar>"
    by (rule arg_cong)
  also have "\<dots> = ?Z * (\<bar>r - ?R\<bar> / r)"
    unfolding abs_mult abs_divide abs_of_pos [OF wpos] abs_of_pos [OF R] abs_of_pos [OF r] ..
  finally have Zr: "\<bar>?Z - of_int w / r\<bar> = ?Z * (\<bar>r - ?R\<bar> / r)" .
  have "\<bar>r - ?R\<bar> / r \<le> (r / 2 ^ 53) / r"
    using rR r by (intro divide_right_mono) (simp_all add: abs_minus_commute)
  then have "?Z * (\<bar>r - ?R\<bar> / r) \<le> ?Z * ((r / 2 ^ 53) / r)"
    using Z by (intro mult_left_mono) auto
  with Zr have "\<bar>?Z - of_int w / r\<bar> \<le> ?Z * ((r / 2 ^ 53) / r)" by simp
  also have "?Z * ((r / 2 ^ 53) / r) = ?Z / 2 ^ 53" using r by simp
  also have "\<dots> \<le> 5001 / 2 ^ 53" using Zle by (intro divide_right_mono) auto
  also have "\<dots> \<le> 1 / 8" by simp
  finally have e1: "\<bar>?Z - of_int w / r\<bar> \<le> 1 / 8" .
  have e3: "\<bar>fl ?Z - of_int w / r\<bar> \<le> 1 / 4" using e1 e2 by linarith
  have e4: "\<bar>of_int \<lfloor>fl ?Z + 1 / 2\<rfloor> - fl ?Z\<bar> \<le> 1 / 2" by (rule round_half_up_error)
  show "\<bar>of_int \<lfloor>fl ?Z + 1 / 2\<rfloor> - of_int w / r\<bar> \<le> 1" using e3 e4 by linarith
  have "fl ?Z \<le> of_int h + 1 / 4" using e2 Zh by linarith
  then have "fl ?Z + 1 / 2 < of_int (h + 1)" by simp
  then have "\<lfloor>fl ?Z + 1 / 2\<rfloor> < h + 1" by (simp only: floor_less_iff)
  then show "\<lfloor>fl ?Z + 1 / 2\<rfloor> \<le> h" by simp
  have "0 \<le> fl ?Z + 1 / 2" using fl_pos [OF Z] by simp
  then show "0 \<le> \<lfloor>fl ?Z + 1 / 2\<rfloor>" by simp
qed

lemma aspectRatio_finite:
  assumes "0 < ow" "0 < oh"
  shows "js_div (Finite (of_nat ow)) (Finite (of_nat oh)) = Finite (fl (of_nat ow / of_nat oh))"
    and "0 < fl (of_nat ow / of_nat oh)"
proof -
  show "js_div (Finite (of_nat ow)) (Finite (of_nat oh)) = Finite (fl (of_nat ow / of_nat oh))"
    using assms by simp
  have "(0::rat) < of_nat ow / of_nat oh" using assms by simp
  then show "0 < fl (of_nat ow / of_nat oh)" by (rule fl_pos)
qed

subsection \<open>Doubles against exact arithmetic\<close>

text \<open>A product or quotient with the double aspect ratio is within the relative error
  \<open>2^-51\<close> of the exact one, and the comparison of doubles decides the exact comparison
  up to that error.\<close>

lemma round_between:
  fixes Y z d :: rat
  assumes "\<bar>Y - z\<bar> \<le> d"
  shows "\<lfloor>z + 1 / 2 - d\<rfloor> \<le> \<lfloor>Y + 1 / 2\<rfloor>" and "\<lfloor>Y + 1 / 2\<rfloor> \<le> \<lfloor>z + 1 / 2 + d\<rfloor>"
  using assms by (auto intro!: floor_mono)

lemma fl_product_error:
  fixes a r :: rat
  assumes a: "0 < a" and r: "0 < r"
  shows "\<bar>fl (a * fl r) - a * r\<bar> \<le> a * r / 2 ^ 51"
proof -
  let ?R = "fl r" and ?X = "a * fl r"
  have R: "0 < ?R" using r by (rule fl_pos)
  have X: "0 < ?X" using a R by simp
  have ar: "0 < a * r" using a r by simp
  have "\<bar>?R - r\<bar> \<le> r / 2 ^ 53" using r by (rule fl_error_pos)
  then have "a * \<bar>?R - r\<bar> \<le> a * (r / 2 ^ 53)" using a by (intro mult_left_mono) auto
  then have e1: "\<bar>?X - a * r\<bar> \<le> a * r / 2 ^ 53"
    using a by (simp add: right_diff_distrib [symmetric] abs_mult)
  then have Xle: "?X \<le> a * r + a * r / 2 ^ 53" by linarith
  have "\<bar>fl ?X - ?X\<bar> \<le> ?X / 2 ^ 53" using X by (rule fl_error_pos)
  also have "\<dots> \<le> (a * r + a * r / 2 ^ 53) / 2 ^ 53" using Xle by (intro divide_right_mono) auto
  finally have e2: "\<bar>fl ?X - ?X\<bar> \<le> (a * r + a * r / 2 ^ 53) / 2 ^ 53" .
  have "(a * r + a * r / 2 ^ 53) / 2 ^ 53 + a * r / 2 ^ 53 \<le> a * r / 2 ^ 51"
    using ar by (simp add: field_simps)
  with e1 e2 show ?thesis by linarith
qed

lemma fl_quotient_error:
  fixes a r :: rat
  assumes a: "0 < a" and r: "0 < r"
  shows "\<bar>fl (a / fl r) - a / r\<bar> \<le> a / r / 2 ^ 51"
proof -
  let ?R = "fl r" and ?Z = "a / fl r"
  have R: "0 < ?R" using r by (rule fl_pos)
  have Z: "0 < ?Z" using a R by simp
  have z: "0 < a / r" using a r by simp
  have rR: "\<bar>?R - r\<bar> \<le> r / 2 ^ 53" using r by (rule fl_error_pos)
  have "?Z - a / r = ?Z * ((r - ?R) / r)" using R r by (simp add: field_simps)
  then have "\<bar>?Z - a / r\<bar> = \<bar>?Z * ((r - ?R) / r)\<bar>" by (rule arg_cong)
  also have "\<dots> = ?Z * (\<bar>r - ?R\<bar> / r)"
    unfolding abs_mult abs_divide abs_of_pos [OF a] abs_of_pos [OF R] abs_of_pos [OF r] ..
  finally have Zr: "\<bar>?Z - a / r\<bar> = ?Z * (\<bar>r - ?R\<bar> / r)" .
  have "\<bar>r - ?R\<bar> / r \<le> (r / 2 ^ 53) / r"
    using rR r by (intro divide_right_mono) (simp_all add: abs_minus_commute)
  then have "?Z * (\<bar>r - ?R\<bar> / r) \<le> ?Z * ((r / 2 ^ 53) / r)"
    using Z by (intro mult_left_mono) auto
  also have "?Z * ((r / 2 ^ 53) / r) = ?Z / 2 ^ 53" using r by simp
  finally have e1: "\<bar>?Z - a / r\<bar> \<le> ?Z / 2 ^ 53" using Zr by simp
  have e2: "\<bar>fl ?Z - ?Z\<bar> \<le> ?Z / 2 ^ 53" using Z by (rule fl_error_pos)
  have "?Z - ?Z / 2 ^ 53 \<le> a / r" using e1 by linarith
  then have "?Z * (1 - 1 / 2 ^ 53) \<le> a / r" by (simp add: algebra_simps)
  then have "?Z \<le> 2 * (a / r)" using Z z by simp
  then have "?Z / 2 ^ 53 + ?Z / 2 ^ 53 \<le> a / r / 2 ^ 51" by simp
  with e1 e2 show ?thesis by linarith
qed

lemma fl_less_exact: "fl x < fl y \<Longrightarrow> x < y"
  using fl_mono [of y x] by (cases "x < y") auto

lemma fl_le_exact:
  fixes q r :: rat
  assumes "0 < q" "0 < r" "\<not> fl r < fl q"
  shows "q \<le> r + r / 2 ^ 51"
proof -
  have "q - q / 2 ^ 53 \<le> fl q" using assms(1) by (rule fl_lower)
  also have "\<dots> \<le> fl r" using assms(3) by simp
  also have "\<dots> \<le> r + r / 2 ^ 53" using fl_error_pos [OF assms(2)] by linarith
  finally have "q * (1 - 1 / 2 ^ 53) \<le> r * (1 + 1 / 2 ^ 53)" by (simp add: algebra_simps)
  then show ?thesis using assms(1,2) by simp
qed

lemma spec_round_nonneg: "0 \<le> x \<Longrightarrow> spec_round x = \<lfloor>x + 1 / 2\<rfloor>"
  by (simp add: spec_round_def)

lemma double_roundingI:
  fixes Y x :: rat
  assumes x: "0 < x" and err: "\<bar>Y - x\<bar> \<le> x / 2 ^ 51"
  shows "double_rounding \<lfloor>Y + 1 / 2\<rfloor> x"
proof -
  have lo0: "0 \<le> x - x / 2 ^ 51" using x by (simp add: field_simps)
  have hi0: "0 \<le> x + x / 2 ^ 51" using x by simp
  have lo: "spec_round (x - x / 2 ^ 51) = \<lfloor>x + 1 / 2 - x / 2 ^ 51\<rfloor>"
    using lo0 by (simp add: spec_round_nonneg algebra_simps)
  have hi: "spec_round (x + x / 2 ^ 51) = \<lfloor>x + 1 / 2 + x / 2 ^ 51\<rfloor>"
    using hi0 by (simp add: spec_round_nonneg algebra_simps)
  have mid: "spec_round x = \<lfloor>x + 1 / 2\<rfloor>" using x by (simp add: spec_round_nonneg)
  have d: "0 \<le> x / 2 ^ 51" using x by simp
  have m1: "\<lfloor>x + 1 / 2 - x / 2 ^ 51\<rfloor> \<le> \<lfloor>x + 1 / 2\<rfloor>" using d by (intro floor_mono) simp
  have m2: "\<lfloor>x + 1 / 2\<rfloor> \<le> \<lfloor>x + 1 / 2 + x / 2 ^ 51\<rfloor>" using d by (intro floor_mono) simp
  note b = round_between [OF err]
  show ?thesis
    unfolding double_rounding_def lo hi mid using b m1 m2 by auto
qed

lemma resize_plan_width_only:
  assumes "truthy width" "\<not> truthy height"
  shows "resize_plan True width height metadata =
      (width, Number (Math_round (js_div (ToNumber width)
         (js_div (Finite (of_nat (fst metadata))) (Finite (of_nat (snd metadata)))))))"
  unfolding resize_plan_def Let_def using assms
  by (simp only: if_True if_False simp_thms)

lemma resize_plan_both:
  assumes "truthy width" "truthy height"
  shows "resize_plan True width height metadata =
     (let aspectRatio = js_div (Finite (of_nat (fst metadata))) (Finite (of_nat (snd metadata))) in
      if js_gt (js_div (ToNumber width) (ToNumber height)) aspectRatio
      then (Number (Math_round (js_mul (ToNumber height) aspectRatio)), height)
      else (width, Number (Math_round (js_div (ToNumber width) aspectRatio))))"
  unfolding resize_plan_def Let_def using assms
  by (simp only: if_True simp_thms)

text \<open>Values of \<open>fl\<close> used by the concrete plans below.\<close>

lemma fl_1: "fl 1 = 1"
  by code_simp

lemma fl_box_300: "\<not> fl (4 / 3) < 1" "fl (4 / 3) \<noteq> 0" "\<lfloor>fl (300 / fl (4 / 3)) + 1 / 2\<rfloor> = 225"
  by code_simp+

lemma fl_box_800_100: "fl (4 / 3) < fl 8" "\<lfloor>fl (100 * fl (4 / 3)) + 1 / 2\<rfloor> = 133"
  by code_simp+

lemma fl_width_21: "fl (6 / 17) \<noteq> 0" "\<lfloor>fl (21 / fl (6 / 17)) + 1 / 2\<rfloor> = 59" "\<lfloor>(21::rat) / (6 / 17) + 1 / 2\<rfloor> = 60"
  by code_simp+

lemma fl_box_400_300: "\<lfloor>fl (400 / fl (4 / 3)) + 1 / 2\<rfloor> = 300"
  by code_simp

lemma fl_box_90_45: "fl (7 / 10) < fl 2" "\<lfloor>fl (45 * fl (7 / 10)) + 1 / 2\<rfloor> = 31"
  by code_simp+

lemma spec_round_values:
  "spec_round 225 = 225" "spec_round (400 / 3) = 133" "spec_round (63 / 2) = 32"
  "spec_round (900 / 7) = 129" "spec_round (119 / 2) = 60"
  by code_simp+

section \<open>Validated dimensions\<close>

text \<open>A width or height that is truthy and passes the handler's test is an integer from
  1 to 5000: these are the values that reach the resize plan.\<close>

lemma parseInt_cases: "parseInt s = NaN \<or> (\<exists>n. parseInt s = Finite (fl (of_int n)))"
  unfolding parseInt_def Let_def
  by (simp split: prod.splits del: of_int_mult of_int_of_nat_eq) blast

lemma validated_dimension:
  assumes "truthy (parse_dimension q)"
    and "\<not> (js_lt (ToNumber (parse_dimension q)) (Finite 1) \<or> js_gt (ToNumber (parse_dimension q)) (Finite 5000))"
  shows "\<exists>w. parse_dimension q = Number (Finite (of_int w)) \<and> 1 \<le> w \<and> w \<le> 5000"
proof -
  from assms(1) obtain s where q: "q = Some s" "s \<noteq> []" and d: "parse_dimension q = Number (parseInt s)"
    by (auto simp: parse_dimension_def split: option.splits if_splits)
  with assms(1) parseInt_cases [of s] obtain n where n: "parseInt s = Finite (fl (of_int n))"
    by auto
  have range: "1 \<le> fl (of_int n)" "fl (of_int n) \<le> 5000"
    using assms(2) by (simp_all add: d n js_gt_def)
  have "1 \<le> n"
  proof (rule ccontr)
    assume "\<not> 1 \<le> n"
    then have "(of_int n :: rat) \<le> 0" by simp
    then have "fl (of_int n) \<le> fl 0" by (rule fl_mono)
    with range(1) show False by (simp add: fl_0)
  qed
  moreover have "n \<le> 5000"
  proof (rule ccontr)
    assume "\<not> n \<le> 5000"
    then have "(of_int 5001 :: rat) \<le> of_int n" by (simp only: of_int_le_iff)
    then have "fl (of_int 5001) \<le> fl (of_int n)" by (rule fl_mono)
    moreover have "fl (of_int 5001) = of_int 5001" by (rule fl_of_int) simp
    ultimately show False using range(2) by simp
  qed
  ultimately have "fl (of_int n) = of_int n" by (intro fl_of_int) simp
  with d n \<open>1 \<le> n\<close> \<open>n \<le> 5000\<close> show ?thesis by auto
qed

section \<open>The upload middleware\<close>

lemma upload_array_accepts:
  "upload_array n filesLeft fs = Inr fs' \<longleftrightarrow>
     fs' = fs \<and> (fs \<noteq> [] \<longrightarrow> n + length fs \<le> 20 \<and> length fs \<le> filesLeft)
     \<and> (\<forall>f\<in>set fs. fieldname f = str ''images'' \<and> prefix (str ''image/'') (mimetype f))"
proof (induction fs arbitrary: n filesLeft fs')
  case Nil
  then show ?case by auto
next
  case (Cons f fs)
  note IH = Cons.IH [of "Suc n" "filesLeft - 1"]
  show ?case
  proof (cases "upload_array (Suc n) (filesLeft - 1) fs")
    case (Inl err)
    with IH [of fs] show ?thesis
      by (auto simp: fileFilter_def)
  next
    case (Inr fs'')
    with IH [of fs''] show ?thesis
      by (auto simp: fileFilter_def)
  qed
qed

lemma upload_array_too_many:
  "20 < n + length fs \<Longrightarrow> fs \<noteq> [] \<Longrightarrow> \<exists>err. upload_array n filesLeft fs = Inl err"
  by (cases "upload_array n filesLeft fs") (auto simp: upload_array_accepts)

lemma upload_array_limit:
  "\<forall>f\<in>set fs. fieldname f = str ''images'' \<and> prefix (str ''image/'') (mimetype f) \<Longrightarrow>
   n \<le> 20 \<Longrightarrow> 20 < n + length fs \<Longrightarrow> 20 \<le> n + filesLeft \<Longrightarrow>
   upload_array n filesLeft fs = Inl (MulterError LIMIT_FILE_COUNT)"
proof (induction fs arbitrary: n filesLeft)
  case Nil
  then show ?case by simp
next
  case (Cons f fs)
  show ?case
  proof (cases "20 \<le> n")
    case True
    then show ?thesis by simp
  next
    case False
    with Cons.prems have "upload_array (Suc n) (filesLeft - 1) fs = Inl (MulterError LIMIT_FILE_COUNT)"
      by (intro Cons.IH) auto
    with False Cons.prems show ?thesis
      by (auto simp: fileFilter_def)
  qed
qed

lemma upload_accepts:
  "parts req = Some fs \<Longrightarrow> length fs \<le> 20 \<Longrightarrow> \<forall>f\<in>set fs. image_part f \<Longrightarrow>
   upload req = Inr (Some fs)"
  using upload_array_accepts [of 0 20 fs fs]
  by (auto simp: upload_def image_part_def split: sum.splits)

section \<open>The conversion loop\<close>

lemma apply_plan_Inr:
  "apply_plan img plan = Inr img' \<Longrightarrow>
     input_path img' = input_path img \<and> webp_quality img' = webp_quality img"
  by (cases plan) (auto simp: resize_def split: if_splits)

lemma convert_file_Inr:
  "convert_file e w h q keep i f = Inr (url, out) \<Longrightarrow>
     url = public_url (outputFilename e i)
     \<and> outputPath out = path_join (outputDir e) (outputFilename e i)
     \<and> input_path (written out) = path f
     \<and> webp_quality (written out) = Some q"
  unfolding convert_file_def Let_def
  by (auto simp: webp_def sharp_def split: sum.splits option.splits dest!: apply_plan_Inr)

text \<open>What it takes for an iteration not to throw.\<close>

lemma convert_file_Inr_iff:
  "(\<exists>url out. convert_file e w h q keep i f = Inr (url, out)) \<longleftrightarrow>
   (\<exists>metadata img'. sharp_metadata e (path f) = Inr metadata
      \<and> apply_plan (sharp (path f)) (resize_plan keep w h metadata) = Inr img'
      \<and> sharp_toFile e (webp img' q) (path_join (outputDir e) (outputFilename e i)) = None)"
  unfolding convert_file_def Let_def by (auto split: sum.splits option.splits)

lemma convert_all_ok:
  "\<forall>j<length fs. \<exists>url out. convert_file e w h q keep (i + j) (fs ! j) = Inr (url, out) \<Longrightarrow>
   \<exists>us os. convert_all e w h q keep i fs urls outs = (Inr (urls @ us), outs @ os)
     \<and> length us = length fs \<and> length os = length fs
     \<and> (\<forall>j<length fs. convert_file e w h q keep (i + j) (fs ! j) = Inr (us ! j, os ! j))"
proof (induction fs arbitrary: i urls outs)
  case Nil
  then show ?case by simp
next
  case (Cons f fs)
  from Cons.prems obtain url out where f: "convert_file e w h q keep i f = Inr (url, out)"
    by fastforce
  from Cons.prems have "\<forall>j<length fs. \<exists>url out. convert_file e w h q keep (Suc i + j) (fs ! j) = Inr (url, out)"
    by fastforce
  from Cons.IH [OF this, of "urls @ [url]" "outs @ [out]"]
  obtain us os where IH: "convert_all e w h q keep (Suc i) fs (urls @ [url]) (outs @ [out]) = (Inr (urls @ [url] @ us), outs @ [out] @ os)"
     "length us = length fs" "length os = length fs"
     "\<forall>j<length fs. convert_file e w h q keep (Suc i + j) (fs ! j) = Inr (us ! j, os ! j)"
    by auto
  have "\<forall>j<length (f # fs). convert_file e w h q keep (i + j) ((f # fs) ! j) = Inr ((url # us) ! j, (out # os) ! j)"
  proof (intro allI impI)
    fix j assume "j < length (f # fs)"
    then show "convert_file e w h q keep (i + j) ((f # fs) ! j) = Inr ((url # us) ! j, (out # os) ! j)"
      using f IH(4) by (cases j) auto
  qed
  with f IH show ?case
    by (intro exI [of _ "url # us"] exI [of _ "out # os"]) simp
qed

lemma convert_all_fails:
  "k < length fs \<Longrightarrow> convert_file e w h q keep (i + k) (fs ! k) = Inl err \<Longrightarrow>
   \<forall>j<k. \<exists>url out. convert_file e w h q keep (i + j) (fs ! j) = Inr (url, out) \<Longrightarrow>
   \<exists>os. convert_all e w h q keep i fs urls outs = (Inl err, outs @ os) \<and> length os = k
     \<and> (\<forall>j<k. \<exists>url. convert_file e w h q keep (i + j) (fs ! j) = Inr (url, os ! j))"
proof (induction fs arbitrary: i k urls outs)
  case Nil
  then show ?case by simp
next
  case (Cons f fs)
  show ?case
  proof (cases k)
    case 0
    with Cons.prems show ?thesis by simp
  next
    case (Suc k')
    from Cons.prems Suc obtain url out where f: "convert_file e w h q keep i f = Inr (url, out)"
      by fastforce
    have 1: "k' < length fs" using Cons.prems Suc by simp
    have 2: "convert_file e w h q keep (Suc i + k') (fs ! k') = Inl err" using Cons.prems Suc by simp
    have 3: "\<forall>j<k'. \<exists>url out. convert_file e w h q keep (Suc i + j) (fs ! j) = Inr (url, out)"
      using Cons.prems(3) Suc by fastforce
    from Cons.IH [OF 1 2 3, of "urls @ [url]" "outs @ [out]"]
    obtain os where IH: "convert_all e w h q keep (Suc i) fs (urls @ [url]) (outs @ [out]) = (Inl err, outs @ [out] @ os)"
      "length os = k'" "\<forall>j<k'. \<exists>url. convert_file e w h q keep (Suc i + j) (fs ! j) = Inr (url, os ! j)"
      by auto
    have "\<forall>j<k. \<exists>url. convert_file e w h q keep (i + j) ((f # fs) ! j) = Inr (url, (out # os) ! j)"
    proof (intro allI impI)
      fix j assume "j < k"
      then show "\<exists>url. convert_file e w h q keep (i + j) ((f # fs) ! j) = Inr (url, (out # os) ! j)"
        using f IH(3) Suc by (cases j) auto
    qed
    with f IH Suc show ?thesis
      by (intro exI [of _ "out # os"]) simp
  qed
qed

lemma convert_all_quality:
  "convert_all e w h q keep i fs urls outs = (r, outs') \<Longrightarrow>
   \<forall>out\<in>set outs. webp_quality (written out) = Some q \<Longrightarrow>
   \<forall>out\<in>set outs'. webp_quality (written out) = Some q"
proof (induction fs arbitrary: i urls outs)
  case Nil
  then show ?case by simp
next
  case (Cons f fs)
  show ?case
  proof (cases "convert_file e w h q keep i f")
    case (Inl err)
    with Cons.prems show ?thesis by simp
  next
    case (Inr p)
    obtain url out where p: "p = (url, out)" by (cases p)
    with Inr convert_file_Inr have "webp_quality (written out) = Some q" by blast
    with Cons.prems Inr p show ?thesis
      by (intro Cons.IH [of "Suc i" "urls @ [url]" "outs @ [out]"]) auto
  qed
qed

lemma post_upload_converts:
  "\<not> params_invalid req \<Longrightarrow> fs \<noteq> [] \<Longrightarrow> length fs \<le> 20 \<Longrightarrow>
   post_upload e req (Some fs) =
     (case convert_all e (parse_dimension (query_width req)) (parse_dimension (query_height req))
        (parse_quality (query_quality req)) (parse_flag (query_maintainAspectRatio req)) 0 fs [] [] of
        (Inl err, outs) \<Rightarrow> (\<lparr>status = 500, body = ErrorBody (str ''Image conversion failed'')\<rparr>, outs)
      | (Inr urls, outs) \<Rightarrow> (\<lparr>status = 200, body = Urls urls\<rparr>, outs))"
  by (simp add: post_upload_def params_invalid_def Let_def)

section \<open>Falsy dimensions\<close>

text \<open>A width or height that is \<^verbatim>\<open>null\<close>, \<^verbatim>\<open>NaN\<close> or \<^verbatim>\<open>0\<close> passes every test of the
  handler as \<^verbatim>\<open>null\<close> does.\<close>

lemma falsy_cases: "\<not> truthy v \<Longrightarrow> v = Null \<or> v = Number NaN \<or> v = Number (Finite 0)"
  by (cases v rule: truthy.cases) auto

lemma invalid_params_falsy_width:
  "\<not> truthy v \<Longrightarrow> invalid_params v h q = invalid_params Null h q"
  by (simp add: invalid_params_def)

lemma invalid_params_falsy_height:
  "\<not> truthy v \<Longrightarrow> invalid_params w v q = invalid_params w Null q"
  by (simp add: invalid_params_def)

lemma apply_plan_falsy_width:
  "\<not> truthy v \<Longrightarrow> apply_plan img (resize_plan k v h m) = apply_plan img (resize_plan k Null h m)"
  by (drule falsy_cases, elim disjE)
    (simp_all add: resize_plan_def Let_def or_null_def del: js_div.simps js_mul.simps Math_round.simps)

lemma apply_plan_falsy_height:
  "\<not> truthy v \<Longrightarrow> apply_plan img (resize_plan k w v m) = apply_plan img (resize_plan k w Null m)"
  by (drule falsy_cases, elim disjE)
    (simp_all add: resize_plan_def Let_def or_null_def del: js_div.simps js_mul.simps Math_round.simps)

lemma convert_file_falsy_width:
  "\<not> truthy v \<Longrightarrow> convert_file e v h q k i f = convert_file e Null h q k i f"
  unfolding convert_file_def Let_def
  by (simp add: apply_plan_falsy_width [of v] cong: sum.case_cong)

lemma convert_file_falsy_height:
  "\<not> truthy v \<Longrightarrow> convert_file e w v q k i f = convert_file e w Null q k i f"
  unfolding convert_file_def Let_def
  by (simp add: apply_plan_falsy_height [of v] cong: sum.case_cong)

lemma convert_all_cong_file:
  "(\<And>i f. convert_file e w h q k i f = convert_file e w' h' q k i f) \<Longrightarrow>
   convert_all e w h q k i fs urls outs = convert_all e w' h' q k i fs urls outs"
  by (induction fs arbitrary: i urls outs) (simp_all split: sum.splits)

lemma post_upload_falsy_width:
  assumes "\<not> truthy (parse_dimension (Some s))"
  shows "post_upload e (req\<lparr>query_width := Some s\<rparr>) files = post_upload e (req\<lparr>query_width := None\<rparr>) files"
proof -
  let ?v = "parse_dimension (Some s)"
  have n: "parse_dimension None = Null" by (simp add: parse_dimension_def)
  have c: "convert_all e ?v h q k i fs urls outs = convert_all e Null h q k i fs urls outs" for h q k i fs urls outs
    by (rule convert_all_cong_file) (rule convert_file_falsy_width [OF assms])
  show ?thesis
    unfolding post_upload_def Let_def
    by (simp add: n c invalid_params_falsy_width [OF assms] cong: if_cong option.case_cong)
qed

lemma post_upload_falsy_height:
  assumes "\<not> truthy (parse_dimension (Some s))"
  shows "post_upload e (req\<lparr>query_height := Some s\<rparr>) files = post_upload e (req\<lparr>query_height := None\<rparr>) files"
proof -
  let ?v = "parse_dimension (Some s)"
  have n: "parse_dimension None = Null" by (simp add: parse_dimension_def)
  have c: "convert_all e w ?v q k i fs urls outs = convert_all e w Null q k i fs urls outs" for w q k i fs urls outs
    by (rule convert_all_cong_file) (rule convert_file_falsy_height [OF assms])
  show ?thesis
    unfolding post_upload_def Let_def
    by (simp add: n c invalid_params_falsy_height [OF assms] cong: if_cong option.case_cong)
qed

lemma parseInt_0: "parseInt (str ''0'') = Finite 0"
  by (simp add: model_defs fl_0)

lemma falsy_dimension:
  "s = str ''0'' \<or> parseInt s = NaN \<Longrightarrow> \<not> truthy (parse_dimension (Some s))"
  by (auto simp: parse_dimension_def parseInt_0)

lemma parseInt_px: "parseInt (str ''px'') = NaN"
  by (simp add: model_defs)

section \<open>The claims\<close>

text \<open>
  C1. The claim: a width or height that is present but parses to a non-numeric value or to
  an integer outside 1 to 5000 is answered with 400 and no image is processed. The code
  tests \<^verbatim>\<open>width && (width < 1 || width > 5000)\<close>, and \<^verbatim>\<open>0\<close> and \<^verbatim>\<open>NaN\<close> are falsy: a
  request with \<^verbatim>\<open>width=0\<close> or \<^verbatim>\<open>height=abc\<close> is answered exactly as the request without
  the parameter, here with 200 and one image written.
\<close>

theorem zero_or_text_dimension_accepted:
  "app_post_upload example_env (example_request\<lparr>query_width := Some (str ''0'')\<rparr>)
     = app_post_upload example_env example_request
   \<and> app_post_upload example_env (example_request\<lparr>query_height := Some (str ''abc'')\<rparr>)
     = app_post_upload example_env example_request
   \<and> status (fst (app_post_upload example_env example_request)) = 200
   \<and> length (snd (app_post_upload example_env example_request)) = 1"
  by (simp add: model_defs example_defs fl_0)

text \<open>
  C2. The claim: 21 uploaded files are answered with 400 and a "maximum" message, no file
  with 400 and "No images provided". The upload middleware stops at the 21st file, and
  the error handler answers its error with 500 "Internal server error"; the handler's own
  test of the count is never reached. An upload without files is answered as claimed.
\<close>

theorem too_many_files_is_500:
  "app_post_upload e (req\<lparr>parts := Some (replicate 21 example_image)\<rparr>)
     = (\<lparr>status = 500, body = ErrorBody (str ''Internal server error'')\<rparr>, [])
   \<and> app_post_upload example_env (example_request\<lparr>parts := Some []\<rparr>)
     = (\<lparr>status = 400, body = ErrorBody (str ''No images provided'')\<rparr>, [])"
proof -
  have "\<forall>f\<in>set (replicate 21 example_image). fieldname f = str ''images'' \<and> prefix (str ''image/'') (mimetype f)"
    by (simp add: model_defs example_defs fl_0)
  then have "upload_array 0 20 (replicate 21 example_image) = Inl (MulterError LIMIT_FILE_COUNT)"
    by (rule upload_array_limit) simp_all
  moreover have "error_handler (MulterError LIMIT_FILE_COUNT)
      = \<lparr>status = 500, body = ErrorBody (str ''Internal server error'')\<rparr>"
    by (simp add: model_defs example_defs fl_0)
  ultimately have "app_post_upload e (req\<lparr>parts := Some (replicate 21 example_image)\<rparr>)
     = (\<lparr>status = 500, body = ErrorBody (str ''Internal server error'')\<rparr>, [])"
    by (simp add: app_post_upload_def upload_def)
  moreover have "app_post_upload example_env (example_request\<lparr>parts := Some []\<rparr>)
     = (\<lparr>status = 400, body = ErrorBody (str ''No images provided'')\<rparr>, [])"
    by (simp add: model_defs example_defs fl_0)
  ultimately show ?thesis by simp
qed

text \<open>
  C3. Both dimensions given, each from 1 to 5000, \<^verbatim>\<open>maintainAspectRatio\<close> set, a source of
  positive size: the plan is a pair of integers that exceeds neither bound, and it keeps
  one requested dimension while the other is within one pixel of the value that gives
  exactly the aspect ratio of the source.
\<close>

theorem bounding_box_plan:
  fixes w h :: int and ow oh :: nat
  assumes "1 \<le> w" "w \<le> 5000" "1 \<le> h" "h \<le> 5000" "0 < ow" "0 < oh"
  shows "\<exists>tw th.
      resize_plan True (Number (Finite (of_int w))) (Number (Finite (of_int h))) (ow, oh)
        = (Number (Finite (of_int tw)), Number (Finite (of_int th)))
      \<and> 0 \<le> tw \<and> tw \<le> w \<and> 0 \<le> th \<and> th \<le> h
      \<and> (th = h \<and> \<bar>of_int tw - of_int h * (of_nat ow / of_nat oh)\<bar> \<le> (1::rat)
         \<or> tw = w \<and> \<bar>of_int th - of_int w / (of_nat ow / of_nat oh)\<bar> \<le> (1::rat))"
proof -
  let ?r = "of_nat ow / of_nat oh :: rat"
  have r: "0 < ?r" using assms by simp
  note ar = aspectRatio_finite [OF assms(5,6)]
  have w0: "(of_int w :: rat) \<noteq> 0" and h0: "(of_int h :: rat) \<noteq> 0" using assms by simp_all
  show ?thesis
  proof (cases "fl ?r < fl (of_int w / of_int h)")
    case True
    let ?tw = "\<lfloor>fl (of_int h * fl ?r) + 1 / 2\<rfloor>"
    have "resize_plan True (Number (Finite (of_int w))) (Number (Finite (of_int h))) (ow, oh)
        = (Number (Finite (of_int ?tw)), Number (Finite (of_int h)))"
      using True w0 h0 ar by (simp add: resize_plan_def js_gt_def)
    with plan_width [OF assms(1-4) r True] assms(3) show ?thesis
      by (intro exI [of _ ?tw] exI [of _ h]) simp
  next
    case False
    let ?th = "\<lfloor>fl (of_int w / fl ?r) + 1 / 2\<rfloor>"
    have "resize_plan True (Number (Finite (of_int w))) (Number (Finite (of_int h))) (ow, oh)
        = (Number (Finite (of_int w)), Number (Finite (of_int ?th)))"
      using False w0 h0 ar by (simp add: resize_plan_def js_gt_def)
    with plan_height [OF assms(1-4) r False] assms(1) show ?thesis
      by (intro exI [of _ w] exI [of _ ?th]) simp
  qed
qed

theorem bounding_box_plan_witness:
  "resize_plan True (Number (Finite 300)) (Number (Finite 300)) (800, 600)
     = (Number (Finite 300), Number (Finite 225))
   \<and> (\<exists>tw th.
      resize_plan True (Number (Finite 300)) (Number (Finite 300)) (800, 600)
        = (Number (Finite (of_int tw)), Number (Finite (of_int th)))
      \<and> 0 \<le> tw \<and> tw \<le> 300 \<and> 0 \<le> th \<and> th \<le> 300
      \<and> (th = 300 \<and> \<bar>of_int tw - 300 * (800 / 600)\<bar> \<le> (1::rat)
         \<or> tw = 300 \<and> \<bar>of_int th - 300 / (800 / 600)\<bar> \<le> (1::rat)))"
proof -
  have "resize_plan True (Number (Finite 300)) (Number (Finite 300)) (800, 600)
     = (Number (Finite 300), Number (Finite 225))"
    by (simp add: resize_plan_def js_gt_def fl_1 fl_box_300)
  with bounding_box_plan [of 300 300 800 600] show ?thesis by simp
qed

text \<open>
  C4. Only the width given (the height absent or falsy), \<^verbatim>\<open>maintainAspectRatio\<close> set, a
  source of positive size: the target width is the width, and the target height is
  \<^verbatim>\<open>Math.round(width / aspectRatio)\<close> with both divisions in doubles. It is the rounding of
  a value within the relative error \<open>2^-51\<close> of the exact quotient, hence the exact
  rounding of the claim unless the exact quotient is that close to a tie.
\<close>

theorem width_only_plan_in_doubles:
  fixes w :: int
  assumes "0 < w" "\<not> truthy height" "0 < fst metadata" "0 < snd metadata"
  shows "\<exists>th. resize_plan True (Number (Finite (of_int w))) height metadata
        = (Number (Finite (of_int w)), Number (Finite (of_int th)))
      \<and> th = \<lfloor>fl (of_int w / fl (spec_aspectRatio metadata)) + 1 / 2\<rfloor>
      \<and> double_rounding th (of_int w / spec_aspectRatio metadata)"
proof -
  let ?r = "spec_aspectRatio metadata"
  have r: "0 < ?r" using assms(3,4) by (simp add: spec_aspectRatio_def)
  have w: "(0::rat) < of_int w" using assms(1) by simp
  note ar = aspectRatio_finite [OF assms(3,4)]
  let ?th = "\<lfloor>fl (of_int w / fl ?r) + 1 / 2\<rfloor>"
  have "resize_plan True (Number (Finite (of_int w))) height metadata
        = (Number (Finite (of_int w)), Number (Finite (of_int ?th)))"
    using resize_plan_width_only [of "Number (Finite (of_int w))" height metadata] assms(1,2) ar
    by (simp add: spec_aspectRatio_def)
  moreover have "double_rounding ?th (of_int w / ?r)"
    using w r by (intro double_roundingI fl_quotient_error) simp_all
  ultimately show ?thesis by blast
qed

theorem width_only_plan_in_doubles_witness:
  "resize_plan True (Number (Finite 300)) Null (800, 600) = (Number (Finite 300), Number (Finite 225))
   \<and> double_rounding 225 (300 / spec_aspectRatio (800, 600))
   \<and> spec_round (300 / spec_aspectRatio (800, 600)) = 225"
proof -
  have t: "\<not> truthy Null" by simp
  from width_only_plan_in_doubles [of 300 Null "(800, 600)", OF _ t]
  obtain th where p: "resize_plan True (Number (Finite 300)) Null (800, 600)
        = (Number (Finite 300), Number (Finite (of_int th)))"
    and th: "th = \<lfloor>fl (300 / fl (spec_aspectRatio (800, 600))) + 1 / 2\<rfloor>"
    and d: "double_rounding th (300 / spec_aspectRatio (800, 600))"
    by auto
  have "th = 225" using th by (simp add: spec_aspectRatio_def fl_box_300)
  moreover have "spec_round (300 / spec_aspectRatio (800, 600)) = 225"
    by (simp add: spec_round_values spec_aspectRatio_def)
  ultimately show ?thesis using p d by simp
qed

text \<open>
  C4 as stated, with the exact quotient and the rounding of the specification, fails at a
  tie: width 21 on a source of 6 by 17 pixels gives the target height 59, since
  \<^verbatim>\<open>21 / (6 / 17)\<close> is the double just below 59.5, where the exact quotient 59.5 rounds
  to 60.
\<close>

theorem width_only_plan_counterexample:
  "resize_plan True (Number (Finite 21)) Null (6, 17) = (Number (Finite 21), Number (Finite 59))
   \<and> spec_round (21 / spec_aspectRatio (6, 17)) = 60
   \<and> snd (resize_plan True (Number (Finite 21)) Null (6, 17))
       \<noteq> Number (Finite (of_int (spec_round (21 / spec_aspectRatio (6, 17)))))"
  by (simp add: resize_plan_def fl_width_21 spec_round_values spec_aspectRatio_def)

text \<open>
  C5. A request that reaches the handler with \<^verbatim>\<open>quality=0\<close> or \<^verbatim>\<open>quality=101\<close> is answered
  with 400 and nothing is written; without the parameter the quality is 80, and every
  file written was encoded with quality 80.
\<close>

theorem quality_range_and_default:
  assumes "upload req = Inr files"
  shows "(query_quality req = Some (str ''0'') \<or> query_quality req = Some (str ''101'') \<longrightarrow>
        app_post_upload e req =
          (\<lparr>status = 400, body = ErrorBody (str ''Invalid width, height, or quality'')\<rparr>, []))
    \<and> (query_quality req = None \<longrightarrow>
        parse_quality (query_quality req) = Finite 80
        \<and> (\<forall>out\<in>set (snd (app_post_upload e req)). webp_quality (written out) = Some (Finite 80)))"
proof -
  have fl101: "fl 101 = 101" by code_simp
  have q0: "parse_quality (Some (str ''0'')) = Finite 0" by (simp add: model_defs fl_0)
  have q101: "parse_quality (Some (str ''101'')) = Finite 101" by (simp add: model_defs fl101)
  have app: "app_post_upload e req = post_upload e req files"
    using assms by (simp add: app_post_upload_def)
  have bad: "app_post_upload e req =
          (\<lparr>status = 400, body = ErrorBody (str ''Invalid width, height, or quality'')\<rparr>, [])"
    if "query_quality req = Some (str ''0'') \<or> query_quality req = Some (str ''101'')"
    using that q0 q101 unfolding app by (auto simp: post_upload_def invalid_params_def js_gt_def Let_def)
  have dflt: "\<forall>out\<in>set (snd (app_post_upload e req)). webp_quality (written out) = Some (Finite 80)"
    if "query_quality req = None"
  proof -
    have q: "parse_quality (query_quality req) = Finite 80" using that by (simp add: parse_quality_def)
    show ?thesis
      unfolding app post_upload_def Let_def q
      by (auto split: option.splits sum.splits prod.splits dest!: convert_all_quality)
  qed
  show ?thesis using bad dflt by (auto simp: parse_quality_def)
qed

theorem quality_range_and_default_witness:
  "app_post_upload example_env (example_request\<lparr>query_quality := Some (str ''0'')\<rparr>) =
          (\<lparr>status = 400, body = ErrorBody (str ''Invalid width, height, or quality'')\<rparr>, [])
   \<and> app_post_upload example_env (example_request\<lparr>query_quality := Some (str ''101'')\<rparr>) =
          (\<lparr>status = 400, body = ErrorBody (str ''Invalid width, height, or quality'')\<rparr>, [])
   \<and> length (snd (app_post_upload example_env example_request)) = 1
   \<and> webp_quality (written (hd (snd (app_post_upload example_env example_request)))) = Some (Finite 80)"
proof -
  have u: "upload (example_request\<lparr>query_quality := q\<rparr>) = Inr (Some [example_image])" for q
    by (simp add: model_defs example_defs)
  have u': "upload example_request = Inr (Some [example_image])"
    by (simp add: model_defs example_defs)
  have n: "query_quality example_request = None" by (simp add: example_defs)
  have l: "length (snd (app_post_upload example_env example_request)) = 1"
    by (simp add: model_defs example_defs)
  then have "hd (snd (app_post_upload example_env example_request)) \<in> set (snd (app_post_upload example_env example_request))"
    by (intro hd_in_set) auto
  with quality_range_and_default [OF u', of example_env] n
  have "webp_quality (written (hd (snd (app_post_upload example_env example_request)))) = Some (Finite 80)"
    by blast
  with quality_range_and_default [OF u, of "Some (str ''0'')" example_env]
    quality_range_and_default [OF u, of "Some (str ''101'')" example_env] l
  show ?thesis by simp
qed

text \<open>
  C6. A batch of \<open>N\<close> image parts (1 to 20), valid parameters, no exception in any
  iteration: the response is 200, \<^verbatim>\<open>urls\<close> has \<open>N\<close> entries, and entry \<open>j\<close> is the public
  URL of the file that iteration \<open>j\<close> wrote from the \<open>j\<close>-th input. When the generated
  names differ, so do the URLs and the paths written.
\<close>

theorem batch_urls_in_input_order:
  assumes "parts req = Some fs" and "fs \<noteq> []" and "length fs \<le> 20"
    and "\<forall>f\<in>set fs. image_part f"
    and "\<not> params_invalid req"
    and "\<forall>j<length fs. \<exists>url out. convert_nth e req j (fs ! j) = Inr (url, out)"
  shows "\<exists>urls outs. app_post_upload e req = (\<lparr>status = 200, body = Urls urls\<rparr>, outs)
     \<and> length urls = length fs \<and> length outs = length fs
     \<and> (\<forall>j<length fs. convert_nth e req j (fs ! j) = Inr (urls ! j, outs ! j)
          \<and> urls ! j = public_url (outputFilename e j)
          \<and> outputPath (outs ! j) = path_join (outputDir e) (outputFilename e j)
          \<and> input_path (written (outs ! j)) = path (fs ! j))
     \<and> (inj_on (outputFilename e) {..<length fs} \<longrightarrow>
          distinct urls \<and> distinct (map outputPath outs))"
proof -
  let ?w = "parse_dimension (query_width req)" and ?h = "parse_dimension (query_height req)"
  let ?q = "parse_quality (query_quality req)" and ?k = "parse_flag (query_maintainAspectRatio req)"
  from assms(6) have "\<forall>j<length fs. \<exists>url out. convert_file e ?w ?h ?q ?k (0 + j) (fs ! j) = Inr (url, out)"
    by (simp add: convert_nth_def)
  from convert_all_ok [OF this, of "[]" "[]"]
  obtain us os where run: "convert_all e ?w ?h ?q ?k 0 fs [] [] = (Inr us, os)"
    and len: "length us = length fs" "length os = length fs"
    and each: "\<forall>j<length fs. convert_file e ?w ?h ?q ?k j (fs ! j) = Inr (us ! j, os ! j)"
    by auto
  have "app_post_upload e req = post_upload e req (Some fs)"
    using upload_accepts [OF assms(1,3,4)] by (simp add: app_post_upload_def)
  also have "\<dots> = (\<lparr>status = 200, body = Urls us\<rparr>, os)"
    using post_upload_converts [OF assms(5,2,3)] run by simp
  finally have resp: "app_post_upload e req = (\<lparr>status = 200, body = Urls us\<rparr>, os)" .
  have "\<forall>j<length fs. convert_nth e req j (fs ! j) = Inr (us ! j, os ! j)
          \<and> us ! j = public_url (outputFilename e j)
          \<and> outputPath (os ! j) = path_join (outputDir e) (outputFilename e j)
          \<and> input_path (written (os ! j)) = path (fs ! j)"
    using each convert_file_Inr by (simp add: convert_nth_def) blast
  note all = this
  have "distinct us \<and> distinct (map outputPath os)" if inj: "inj_on (outputFilename e) {..<length fs}"
  proof -
    have neq: "outputFilename e i \<noteq> outputFilename e j" if "i < length fs" "j < length fs" "i \<noteq> j" for i j
      using that inj by (auto simp: inj_on_def)
    show ?thesis
      using all len neq unfolding distinct_conv_nth
      by (simp add: public_url_def path_join_def)
  qed
  with resp len all show ?thesis by blast
qed

theorem batch_urls_in_input_order_witness:
  "\<exists>urls outs. app_post_upload example_env example_batch = (\<lparr>status = 200, body = Urls urls\<rparr>, outs)
     \<and> length urls = 3 \<and> length outs = 3
     \<and> urls ! 1 = str ''https://webp-convertor-backend.onrender.com/images/1700000000001-4711.webp''
     \<and> outputPath (outs ! 1) = str ''public/images/1700000000001-4711.webp''
     \<and> input_path (written (outs ! 1)) = str ''uploads/3-4.jpg''
     \<and> distinct urls"
proof -
  let ?fs = "[example_image, example_photo, example_image]"
  have 1: "parts example_batch = Some ?fs" by (simp add: model_defs example_defs fl_0)
  have 2: "?fs \<noteq> []" by simp
  have 3: "length ?fs \<le> 20" by simp
  have 4: "\<forall>f\<in>set ?fs. image_part f" by (simp add: model_defs example_defs fl_0)
  have 5: "\<not> params_invalid example_batch" by (simp add: model_defs example_defs fl_0)
  have "(case convert_nth example_env example_batch 0 example_image of Inl _ \<Rightarrow> False | Inr _ \<Rightarrow> True)"
    "(case convert_nth example_env example_batch 1 example_photo of Inl _ \<Rightarrow> False | Inr _ \<Rightarrow> True)"
    "(case convert_nth example_env example_batch 2 example_image of Inl _ \<Rightarrow> False | Inr _ \<Rightarrow> True)"
    by (simp_all add: model_defs example_defs)
  then have 6: "\<forall>j<length ?fs. \<exists>url out. convert_nth example_env example_batch j (?fs ! j) = Inr (url, out)"
    unfolding Inr_pair_iff by (simp add: less_Suc_eq numeral_2_eq_2)
  let ?P = "\<lambda>urls outs.
       app_post_upload example_env example_batch = (\<lparr>status = 200, body = Urls urls\<rparr>, outs)
     \<and> length urls = length ?fs \<and> length outs = length ?fs
     \<and> (\<forall>j<length ?fs. convert_nth example_env example_batch j (?fs ! j) = Inr (urls ! j, outs ! j)
          \<and> urls ! j = public_url (outputFilename example_env j)
          \<and> outputPath (outs ! j) = path_join (outputDir example_env) (outputFilename example_env j)
          \<and> input_path (written (outs ! j)) = path (?fs ! j))
     \<and> (inj_on (outputFilename example_env) {..<length ?fs} \<longrightarrow>
          distinct urls \<and> distinct (map outputPath outs))"
  have "\<exists>urls outs. ?P urls outs"
    by (rule batch_urls_in_input_order [OF 1 2 3 4 5 6])
  then obtain urls where "\<exists>outs. ?P urls outs" ..
  then obtain outs where all: "?P urls outs" ..
  note r = all [THEN conjunct1]
  note len = all [THEN conjunct2, THEN conjunct1] all [THEN conjunct2, THEN conjunct2, THEN conjunct1]
  note each = all [THEN conjunct2, THEN conjunct2, THEN conjunct2, THEN conjunct1]
  note inj = all [THEN conjunct2, THEN conjunct2, THEN conjunct2, THEN conjunct2]
  have names: "outputFilename example_env 0 = str ''1700000000000-4711.webp''"
    "outputFilename example_env 1 = str ''1700000000001-4711.webp''"
    "outputFilename example_env 2 = str ''1700000000002-4711.webp''"
    by (simp_all add: model_defs example_defs)
  have "{..<length ?fs} = {0, 1, 2}" by auto
  then have "inj_on (outputFilename example_env) {..<length ?fs}"
    using names by (simp add: str_def)
  with inj have d: "distinct urls" by simp
  have a: "public_url (outputFilename example_env 1) = str ''https://webp-convertor-backend.onrender.com/images/1700000000001-4711.webp''"
    by (simp add: model_defs example_defs fl_0)
  have b: "path_join (outputDir example_env) (outputFilename example_env 1) = str ''public/images/1700000000001-4711.webp''"
    by (simp add: model_defs example_defs fl_0)
  have c: "path (?fs ! 1) = str ''uploads/3-4.jpg''" by (simp add: model_defs example_defs fl_0)
  from each have "urls ! 1 = public_url (outputFilename example_env 1)
     \<and> outputPath (outs ! 1) = path_join (outputDir example_env) (outputFilename example_env 1)
     \<and> input_path (written (outs ! 1)) = path (?fs ! 1)"
    by simp
  with r len a b c d show ?thesis by simp
qed

text \<open>
  C7. If the conversion of some image \<open>k\<close> throws, the response is 500 with the body
  \<^verbatim>\<open>{"error": "Image conversion failed"}\<close>, which holds no URL, and the loop has stopped
  at the first image that threw: only the images before it were written.
\<close>

theorem failure_aborts_batch:
  assumes "parts req = Some fs" and "length fs \<le> 20"
    and "\<forall>f\<in>set fs. image_part f"
    and "\<not> params_invalid req"
    and "k < length fs" and "convert_nth e req k (fs ! k) = Inl err"
  shows "\<exists>outs err'. app_post_upload e req =
        (\<lparr>status = 500, body = ErrorBody (str ''Image conversion failed'')\<rparr>, outs)
     \<and> (\<forall>urls. body (fst (app_post_upload e req)) \<noteq> Urls urls)
     \<and> length outs \<le> k
     \<and> convert_nth e req (length outs) (fs ! length outs) = Inl err'
     \<and> (\<forall>j<length outs. \<exists>url. convert_nth e req j (fs ! j) = Inr (url, outs ! j))"
proof -
  let ?w = "parse_dimension (query_width req)" and ?h = "parse_dimension (query_height req)"
  let ?q = "parse_quality (query_quality req)" and ?k = "parse_flag (query_maintainAspectRatio req)"
  let ?fails = "\<lambda>j. \<exists>err. convert_file e ?w ?h ?q ?k j (fs ! j) = Inl err"
  define m where "m = (LEAST j. ?fails j)"
  have k: "?fails k" using assms(6) by (auto simp: convert_nth_def)
  have m: "?fails m" unfolding m_def using k by (rule LeastI)
  have mk: "m \<le> k" unfolding m_def using k by (rule Least_le)
  have least: "\<not> ?fails j" if "j < m" for j
    using that unfolding m_def by (rule not_less_Least)
  from m obtain err' where err': "convert_file e ?w ?h ?q ?k (0 + m) (fs ! m) = Inl err'" by auto
  have before: "\<forall>j<m. \<exists>url out. convert_file e ?w ?h ?q ?k (0 + j) (fs ! j) = Inr (url, out)"
  proof (intro allI impI)
    fix j assume "j < m"
    from least [OF this] show "\<exists>url out. convert_file e ?w ?h ?q ?k (0 + j) (fs ! j) = Inr (url, out)"
      by (cases "convert_file e ?w ?h ?q ?k j (fs ! j)") auto
  qed
  have "m < length fs" using mk assms(5) by simp
  from convert_all_fails [OF this err' before, of "[]" "[]"]
  obtain os where run: "convert_all e ?w ?h ?q ?k 0 fs [] [] = (Inl err', os)"
    and len: "length os = m"
    and each: "\<forall>j<m. \<exists>url. convert_file e ?w ?h ?q ?k j (fs ! j) = Inr (url, os ! j)"
    by auto
  have "fs \<noteq> []" using assms(5) by auto
  have "app_post_upload e req = post_upload e req (Some fs)"
    using upload_accepts [OF assms(1,2,3)] by (simp add: app_post_upload_def)
  also have "\<dots> = (\<lparr>status = 500, body = ErrorBody (str ''Image conversion failed'')\<rparr>, os)"
    using post_upload_converts [OF assms(4) \<open>fs \<noteq> []\<close> assms(2)] run by simp
  finally have resp: "app_post_upload e req =
      (\<lparr>status = 500, body = ErrorBody (str ''Image conversion failed'')\<rparr>, os)" .
  show ?thesis
    using resp len mk err' each by (auto simp: convert_nth_def)
qed

theorem failure_aborts_batch_witness:
  "\<exists>outs. app_post_upload failing_env example_batch =
        (\<lparr>status = 500, body = ErrorBody (str ''Image conversion failed'')\<rparr>, outs)
     \<and> length outs \<le> 2"
proof -
  let ?fs = "[example_image, example_photo, example_image]"
  have 1: "parts example_batch = Some ?fs" by (simp add: model_defs example_defs fl_0)
  have 3: "length ?fs \<le> 20" by simp
  have 4: "\<forall>f\<in>set ?fs. image_part f" by (simp add: model_defs example_defs fl_0)
  have 5: "\<not> params_invalid example_batch" by (simp add: model_defs example_defs fl_0)
  have 7: "convert_nth failing_env example_batch 1 (?fs ! 1)
      = Inl (Error (str ''Input file contains unsupported image format''))"
    by (simp add: model_defs example_defs fl_0)
  have 8: "(1::nat) < length ?fs" by simp
  from failure_aborts_batch [OF 1 3 4 5 8 7] show ?thesis
    by auto
qed

text \<open>
  C8. Without \<^verbatim>\<open>maintainAspectRatio=true\<close> the plan is the requested width and height as
  parsed, \<^verbatim>\<open>null\<close> for an absent parameter. When both targets are unset (or falsy) the
  resize step is skipped: the file is written from the pipeline as opened, and has the
  pixel size of the source.
\<close>

theorem passthrough_and_no_resize:
  "resize_plan False width height metadata = (width, height)
   \<and> parse_dimension None = Null
   \<and> (\<not> truthy tw \<longrightarrow> \<not> truthy th \<longrightarrow> apply_plan img (tw, th) = Inr img)
   \<and> (convert_file e width height quality keep i f = Inr (url, out) \<longrightarrow>
        sharp_metadata e (path f) = Inr metadata \<longrightarrow>
        resize_plan keep width height metadata = (tw, th) \<longrightarrow>
        \<not> truthy tw \<longrightarrow> \<not> truthy th \<longrightarrow>
        resize_to (written out) = None \<and> size_px out = metadata)"
proof (intro conjI impI)
  show "resize_plan False width height metadata = (width, height)"
    by (simp add: resize_plan_def)
  show "parse_dimension None = Null"
    by (simp add: parse_dimension_def)
  show "apply_plan img (tw, th) = Inr img" if "\<not> truthy tw" "\<not> truthy th"
    using that by simp
  assume conv: "convert_file e width height quality keep i f = Inr (url, out)"
    and meta: "sharp_metadata e (path f) = Inr metadata"
    and plan: "resize_plan keep width height metadata = (tw, th)"
    and falsy: "\<not> truthy tw" "\<not> truthy th"
  from falsy have "apply_plan (sharp (path f)) (tw, th) = Inr (sharp (path f))"
    by simp
  with conv meta plan have out: "out = \<lparr>outputPath = path_join (outputDir e) (outputFilename e i),
      written = webp (sharp (path f)) quality,
      size_px = output_size e metadata (sharp (path f))\<rparr>"
    by (auto simp: convert_file_def Let_def split: option.splits)
  show "resize_to (written out) = None" "size_px out = metadata"
    by (simp_all add: out webp_def sharp_def output_size_def)
qed

theorem passthrough_and_no_resize_witness:
  "\<exists>url out. convert_file example_env Null Null (Finite 80) False 0 example_image = Inr (url, out)
     \<and> resize_plan False Null Null (800, 600) = (Null, Null)
     \<and> resize_to (written out) = None \<and> size_px out = (800, 600)"
proof -
  have "case convert_file example_env Null Null (Finite 80) False 0 example_image of
      Inl _ \<Rightarrow> False | Inr _ \<Rightarrow> True"
    by (simp add: model_defs example_defs)
  then obtain url out
    where conv: "convert_file example_env Null Null (Finite 80) False 0 example_image = Inr (url, out)"
    unfolding Inr_pair_iff [symmetric] by blast
  have meta: "sharp_metadata example_env (path example_image) = Inr (800, 600)"
    by (simp add: example_defs)
  have plan: "resize_plan False Null Null (800, 600) = (Null, Null)"
    by (simp add: resize_plan_def)
  have falsy: "\<not> truthy Null" by simp
  from passthrough_and_no_resize [of Null Null "(800, 600)" Null Null _ example_env "Finite 80" False 0
      example_image url out] conv meta plan falsy
  have "resize_to (written out) = None \<and> size_px out = (800, 600)"
    by blast
  with conv plan show ?thesis by blast
qed

text \<open>
  C9. A width or height given as the string \<^verbatim>\<open>0\<close>, or as a string for which \<^verbatim>\<open>parseInt\<close>
  returns \<^verbatim>\<open>NaN\<close>, is not rejected: the handler, and the route as a whole, answer and
  write exactly what they do for the request without that parameter.
\<close>

theorem falsy_dimension_is_absent:
  assumes "s = str ''0'' \<or> parseInt s = NaN"
  shows "post_upload e (req\<lparr>query_width := Some s\<rparr>) files = post_upload e (req\<lparr>query_width := None\<rparr>) files
    \<and> post_upload e (req\<lparr>query_height := Some s\<rparr>) files = post_upload e (req\<lparr>query_height := None\<rparr>) files
    \<and> app_post_upload e (req\<lparr>query_width := Some s\<rparr>) = app_post_upload e (req\<lparr>query_width := None\<rparr>)
    \<and> app_post_upload e (req\<lparr>query_height := Some s\<rparr>) = app_post_upload e (req\<lparr>query_height := None\<rparr>)"
proof -
  note falsy = falsy_dimension [OF assms]
  have w: "post_upload e (req\<lparr>query_width := Some s\<rparr>) files
      = post_upload e (req\<lparr>query_width := None\<rparr>) files" for e req files
    by (rule post_upload_falsy_width [OF falsy])
  have h: "post_upload e (req\<lparr>query_height := Some s\<rparr>) files
      = post_upload e (req\<lparr>query_height := None\<rparr>) files" for e req files
    by (rule post_upload_falsy_height [OF falsy])
  have u: "upload (req\<lparr>query_width := x\<rparr>) = upload req"
    "upload (req\<lparr>query_height := x\<rparr>) = upload req" for x req
    by (simp_all add: upload_def)
  show ?thesis
    unfolding app_post_upload_def u w h by simp
qed

theorem falsy_dimension_is_absent_witness:
  "parseInt (str ''px'') = NaN
   \<and> app_post_upload example_env (example_request\<lparr>query_width := Some (str ''px'')\<rparr>)
      = app_post_upload example_env (example_request\<lparr>query_width := None\<rparr>)
   \<and> app_post_upload example_env (example_request\<lparr>query_height := Some (str ''0'')\<rparr>)
      = app_post_upload example_env (example_request\<lparr>query_height := None\<rparr>)
   \<and> status (fst (app_post_upload example_env (example_request\<lparr>query_width := Some (str ''px'')\<rparr>))) = 200"
proof -
  have 1: "str ''px'' = str ''0'' \<or> parseInt (str ''px'') = NaN" by (simp add: parseInt_px)
  have 2: "str ''0'' = str ''0'' \<or> parseInt (str ''0'') = NaN" by simp
  have 3: "status (fst (app_post_upload example_env (example_request\<lparr>query_width := None\<rparr>))) = 200"
    by (simp add: model_defs example_defs)
  from falsy_dimension_is_absent [OF 1, of example_env example_request]
    falsy_dimension_is_absent [OF 2, of example_env example_request] 3 parseInt_px
  show ?thesis by simp
qed

text \<open>
  C10. Both dimensions given and positive, \<^verbatim>\<open>maintainAspectRatio\<close> set, a source of positive
  size: the plan keeps the height and takes \<^verbatim>\<open>Math.round(height * aspectRatio)\<close> as width
  when \<^verbatim>\<open>width / height > aspectRatio\<close> in doubles (the box is then wider than the source
  in exact terms too), and keeps the width and takes \<^verbatim>\<open>Math.round(width / aspectRatio)\<close>
  as height otherwise. The recomputed dimension is the rounding of a value within the
  relative error \<open>2^-51\<close> of the exact product or quotient.
\<close>

theorem bounding_box_plan_in_doubles:
  fixes w h :: int
  assumes "0 < w" "0 < h" "0 < fst metadata" "0 < snd metadata"
  shows "\<exists>tw th. resize_plan True (Number (Finite (of_int w))) (Number (Finite (of_int h))) metadata
        = (Number (Finite (of_int tw)), Number (Finite (of_int th)))
      \<and> (th = h
           \<and> spec_aspectRatio metadata < of_int w / of_int h
           \<and> tw = \<lfloor>fl (of_int h * fl (spec_aspectRatio metadata)) + 1 / 2\<rfloor>
           \<and> double_rounding tw (of_int h * spec_aspectRatio metadata)
         \<or> tw = w
           \<and> of_int w / of_int h \<le> spec_aspectRatio metadata + spec_aspectRatio metadata / 2 ^ 51
           \<and> th = \<lfloor>fl (of_int w / fl (spec_aspectRatio metadata)) + 1 / 2\<rfloor>
           \<and> double_rounding th (of_int w / spec_aspectRatio metadata))"
proof -
  let ?r = "spec_aspectRatio metadata"
  have r: "0 < ?r" using assms(3,4) by (simp add: spec_aspectRatio_def)
  have w: "(0::rat) < of_int w" and h: "(0::rat) < of_int h" using assms(1,2) by simp_all
  have q: "(0::rat) < of_int w / of_int h" using w h by simp
  note ar = aspectRatio_finite [OF assms(3,4)]
  note plan = resize_plan_both [of "Number (Finite (of_int w))" "Number (Finite (of_int h))" metadata]
  show ?thesis
  proof (cases "fl ?r < fl (of_int w / of_int h)")
    case True
    let ?tw = "\<lfloor>fl (of_int h * fl ?r) + 1 / 2\<rfloor>"
    have "resize_plan True (Number (Finite (of_int w))) (Number (Finite (of_int h))) metadata
        = (Number (Finite (of_int ?tw)), Number (Finite (of_int h)))"
      using plan True assms(1,2) ar by (simp add: spec_aspectRatio_def js_gt_def)
    moreover have "?r < of_int w / of_int h" using True by (rule fl_less_exact)
    moreover have "double_rounding ?tw (of_int h * ?r)"
      using h r by (intro double_roundingI fl_product_error) simp_all
    ultimately show ?thesis by blast
  next
    case False
    let ?th = "\<lfloor>fl (of_int w / fl ?r) + 1 / 2\<rfloor>"
    have "resize_plan True (Number (Finite (of_int w))) (Number (Finite (of_int h))) metadata
        = (Number (Finite (of_int w)), Number (Finite (of_int ?th)))"
      using plan False assms(1,2) ar by (simp add: spec_aspectRatio_def js_gt_def)
    moreover have "of_int w / of_int h \<le> ?r + ?r / 2 ^ 51" using q r False by (rule fl_le_exact)
    moreover have "double_rounding ?th (of_int w / ?r)"
      using w r by (intro double_roundingI fl_quotient_error) simp_all
    ultimately show ?thesis by blast
  qed
qed

theorem bounding_box_plan_in_doubles_witness:
  "resize_plan True (Number (Finite 800)) (Number (Finite 100)) (800, 600)
     = (Number (Finite 133), Number (Finite 100))
   \<and> double_rounding 133 (100 * spec_aspectRatio (800, 600))
   \<and> spec_round (100 * spec_aspectRatio (800, 600)) = 133"
proof -
  from bounding_box_plan_in_doubles [of 800 100 "(800, 600)"]
  obtain tw th where p: "resize_plan True (Number (Finite 800)) (Number (Finite 100)) (800, 600)
        = (Number (Finite (of_int tw)), Number (Finite (of_int th)))"
    and d: "th = 100
           \<and> spec_aspectRatio (800, 600) < 800 / 100
           \<and> tw = \<lfloor>fl (100 * fl (spec_aspectRatio (800, 600))) + 1 / 2\<rfloor>
           \<and> double_rounding tw (100 * spec_aspectRatio (800, 600))
         \<or> tw = 800
           \<and> 800 / 100 \<le> spec_aspectRatio (800, 600) + spec_aspectRatio (800, 600) / 2 ^ 51
           \<and> th = \<lfloor>fl (800 / fl (spec_aspectRatio (800, 600))) + 1 / 2\<rfloor>
           \<and> double_rounding th (800 / spec_aspectRatio (800, 600))"
    by auto
  have "\<not> (800 / 100 \<le> spec_aspectRatio (800, 600) + spec_aspectRatio (800, 600) / 2 ^ 51)"
    by (simp add: spec_aspectRatio_def)
  with d have th: "th = 100" and tw: "tw = \<lfloor>fl (100 * fl (spec_aspectRatio (800, 600))) + 1 / 2\<rfloor>"
    and r: "double_rounding tw (100 * spec_aspectRatio (800, 600))"
    by blast+
  have "tw = 133" using tw by (simp add: spec_aspectRatio_def fl_box_800_100)
  moreover have "spec_round (100 * spec_aspectRatio (800, 600)) = 133"
    by (simp add: spec_round_values spec_aspectRatio_def)
  ultimately show ?thesis using p th r by simp
qed

text \<open>
  C10 as stated fails in two ways. A box of the source's own aspect ratio keeps both
  requested dimensions, not exactly one: 400 by 300 on a source of 800 by 600 gives
  (400, 300). And against the exact aspect ratio neither alternative holds at a tie: 90 by
  45 on a source of 7 by 10 gives (31, 45), where the exact width 31.5 rounds to 32.
\<close>

theorem bounding_box_plan_in_doubles_counterexample:
  "resize_plan True (Number (Finite 400)) (Number (Finite 300)) (800, 600)
     = (Number (Finite 400), Number (Finite 300))
   \<and> resize_plan True (Number (Finite 90)) (Number (Finite 45)) (7, 10)
     = (Number (Finite 31), Number (Finite 45))
   \<and> spec_round (45 * spec_aspectRatio (7, 10)) = 32
   \<and> spec_round (90 / spec_aspectRatio (7, 10)) = 129"
  by (simp add: resize_plan_def js_gt_def fl_box_300 fl_box_400_300 fl_box_90_45
      spec_round_values spec_aspectRatio_def)

end
